theory Spec2Isabelle
  imports Main "HOL-Library.AList" "HOL-Library.Sublist"
begin

section \<open>Text, and the regular expressions of the script\<close>

text \<open>
  The script \<^verbatim>\<open>update-latest-and-redirects.py\<close> works on Python \<^verbatim>\<open>str\<close> values. They are
  modelled as \<^typ>\<open>string\<close>; a \<^typ>\<open>char\<close> stands for a code point below 256. The
  whitespace class \<^verbatim>\<open>\s\<close> of \<^verbatim>\<open>re\<close> holds, among these code points, exactly the ones
  listed in \<open>whitespace\<close> (the characters for which \<^verbatim>\<open>str.isspace\<close> is true).
\<close>

definition newline :: char where
  "newline = CHR 0x0A"

definition carriage_return :: char where
  "carriage_return = CHR 0x0D"

definition whitespace :: "char list" where
  "whitespace = [CHR 0x09, CHR 0x0A, CHR 0x0B, CHR 0x0C, CHR 0x0D, CHR 0x1C, CHR 0x1D,
     CHR 0x1E, CHR 0x1F, CHR 0x20, CHR 0x85, CHR 0xA0]"

text \<open>The two quote characters of the class \<^verbatim>\<open>["']\<close>.\<close>

definition quotes :: "char list" where
  "quotes = [CHR 0x22, CHR 0x27]"

text \<open>
  The fragment of \<^verbatim>\<open>re\<close> syntax that the script uses: literal characters, \<^verbatim>\<open>.\<close> (any
  character but a newline), \<^verbatim>\<open>\s\<close>, bracket classes and their negation; sequences; the
  greedy and the lazy star and the plus, which the script puts on single characters only;
  the greedy option; numbered groups; and the anchors \<^verbatim>\<open>^\<close> and \<^verbatim>\<open>$\<close> (no flag is ever set,
  so \<^verbatim>\<open>^\<close> holds at the start of the string and \<^verbatim>\<open>$\<close> at its end or before a final
  newline).
\<close>

datatype cclass = Lit char | Dot | Space | OneOf "char list" | NoneOf "char list"

fun cmatch :: "cclass \<Rightarrow> char \<Rightarrow> bool" where
  "cmatch (Lit c) x = (x = c)"
| "cmatch Dot x = (x \<noteq> newline)"
| "cmatch Space x = (x \<in> set whitespace)"
| "cmatch (OneOf cs) x = (x \<in> set cs)"
| "cmatch (NoneOf cs) x = (x \<notin> set cs)"

datatype regex = Eps | Chr cclass | Seq regex regex | Star cclass | StarLazy cclass
  | Plus cclass | Opt regex | Group nat regex | Bol | Eol

text \<open>
  A matcher state is the index reached, the text still to read and the groups captured so
  far. \<open>ends r st\<close> lists the states in which a match of \<open>r\<close> begun in \<open>st\<close> can end, in the
  order in which the backtracking matcher of \<^verbatim>\<open>re\<close> tries them: a greedy star offers its
  longest run first, a lazy one its shortest. The first state of the list is the match that
  \<^verbatim>\<open>re\<close> reports.
\<close>

type_synonym groups = "(nat \<times> string) list"
type_synonym mstate = "nat \<times> string \<times> groups"

primrec star_greedy :: "cclass \<Rightarrow> nat \<Rightarrow> string \<Rightarrow> (nat \<times> string) list" where
  "star_greedy c i [] = [(i, [])]"
| "star_greedy c i (x # xs) =
     (if cmatch c x then star_greedy c (Suc i) xs else []) @ [(i, x # xs)]"

primrec star_lazy :: "cclass \<Rightarrow> nat \<Rightarrow> string \<Rightarrow> (nat \<times> string) list" where
  "star_lazy c i [] = [(i, [])]"
| "star_lazy c i (x # xs) =
     (i, x # xs) # (if cmatch c x then star_lazy c (Suc i) xs else [])"

fun ends :: "regex \<Rightarrow> mstate \<Rightarrow> mstate list" where
  "ends Eps st = [st]"
| "ends (Chr c) (i, s, g) =
     (case s of [] \<Rightarrow> [] | x # xs \<Rightarrow> if cmatch c x then [(Suc i, xs, g)] else [])"
| "ends (Seq a b) st = concat (map (ends b) (ends a st))"
| "ends (Star c) (i, s, g) = map (\<lambda>(j, t). (j, t, g)) (star_greedy c i s)"
| "ends (StarLazy c) (i, s, g) = map (\<lambda>(j, t). (j, t, g)) (star_lazy c i s)"
| "ends (Plus c) (i, s, g) =
     (case s of [] \<Rightarrow> []
      | x # xs \<Rightarrow> if cmatch c x then map (\<lambda>(j, t). (j, t, g)) (star_greedy c (Suc i) xs)
                  else [])"
| "ends (Opt r) st = ends r st @ [st]"
| "ends (Group n r) (i, s, g) =
     map (\<lambda>(j, t, g'). (j, t, (n, take (j - i) s) # g')) (ends r (i, s, g))"
| "ends Bol (i, s, g) = (if i = 0 then [(i, s, g)] else [])"
| "ends Eol (i, s, g) = (if s = [] \<or> s = [newline] then [(i, s, g)] else [])"

primrec lit :: "string \<Rightarrow> regex" where
  "lit [] = Eps"
| "lit (c # cs) = Seq (Chr (Lit c)) (lit cs)"

primrec seq :: "regex list \<Rightarrow> regex" where
  "seq [] = Eps"
| "seq (r # rs) = Seq r (seq rs)"

text \<open>
  A match object: where the match starts, where it ends, and its groups.
  \<^verbatim>\<open>re.match\<close> tries the start of the string only; \<^verbatim>\<open>re.search\<close> tries every index from
  the left and keeps the first that matches.
\<close>

record rmatch =
  m_start :: nat
  m_end :: nat
  m_groups :: groups

definition re_match :: "regex \<Rightarrow> string \<Rightarrow> rmatch option" where
  "re_match r s =
     (case ends r (0, s, []) of
        [] \<Rightarrow> None
      | (j, t, g) # _ \<Rightarrow> Some \<lparr>m_start = 0, m_end = j, m_groups = g\<rparr>)"

fun search_from :: "regex \<Rightarrow> nat \<Rightarrow> string \<Rightarrow> rmatch option" where
  "search_from r i [] =
     (case ends r (i, [], []) of
        [] \<Rightarrow> None
      | (j, t, g) # _ \<Rightarrow> Some \<lparr>m_start = i, m_end = j, m_groups = g\<rparr>)"
| "search_from r i (x # xs) =
     (case ends r (i, x # xs, []) of
        [] \<Rightarrow> search_from r (Suc i) xs
      | (j, t, g) # _ \<Rightarrow> Some \<lparr>m_start = i, m_end = j, m_groups = g\<rparr>)"

definition re_search :: "regex \<Rightarrow> string \<Rightarrow> rmatch option" where
  "re_search r s = search_from r 0 s"

text \<open>
  The scan shared by \<^verbatim>\<open>re.findall\<close> and \<^verbatim>\<open>re.sub\<close>: matches from the left, none
  overlapping another. After an empty match the next match at the same index has to be a
  longer one (\<open>must_advance\<close>). Each pair is a match and the text it covers.
\<close>

function finditer_from :: "regex \<Rightarrow> bool \<Rightarrow> nat \<Rightarrow> string \<Rightarrow> (rmatch \<times> string) list" where
  "finditer_from r must_advance i s =
     (case filter (\<lambda>(j, t, g). \<not> must_advance \<or> i < j) (ends r (i, s, [])) of
        [] \<Rightarrow> (case s of [] \<Rightarrow> [] | x # xs \<Rightarrow> finditer_from r False (Suc i) xs)
      | (j, t, g) # _ \<Rightarrow>
          (\<lparr>m_start = i, m_end = j, m_groups = g\<rparr>, take (j - i) s) #
          (if j = i then (if must_advance then [] else finditer_from r True i s)
           else if length t < length s then finditer_from r False j t
           else []))"
  by pat_completeness auto
termination
  by (relation "measure (\<lambda>(r, b, i, s). 2 * length s + (if b then 0 else 1))") auto

definition re_finditer :: "regex \<Rightarrow> string \<Rightarrow> (rmatch \<times> string) list" where
  "re_finditer r s = finditer_from r False 0 s"

text \<open>\<^verbatim>\<open>re.findall\<close> for a pattern without groups: the matched texts.\<close>

definition re_findall :: "regex \<Rightarrow> string \<Rightarrow> string list" where
  "re_findall r s = map snd (re_finditer r s)"

text \<open>
  \<^verbatim>\<open>re.sub(pattern, repl, string)\<close> with a function for \<open>repl\<close>: the text between the
  matches is kept, and every match gives way to what \<open>repl\<close> returns for it.
\<close>

primrec rebuild :: "(rmatch \<Rightarrow> string) \<Rightarrow> (rmatch \<times> string) list \<Rightarrow> nat \<Rightarrow> string \<Rightarrow> string" where
  "rebuild repl [] p s = drop p s"
| "rebuild repl (m # ms) p s =
     take (m_start (fst m) - p) (drop p s) @ repl (fst m) @ rebuild repl ms (m_end (fst m)) s"

definition re_sub_fn :: "regex \<Rightarrow> (rmatch \<Rightarrow> string) \<Rightarrow> string \<Rightarrow> string" where
  "re_sub_fn r repl s = rebuild repl (re_finditer r s) 0 s"

text \<open>\<^verbatim>\<open>re.sub\<close> with a replacement text that holds no backslash.\<close>

definition re_sub :: "regex \<Rightarrow> string \<Rightarrow> string \<Rightarrow> string" where
  "re_sub r repl s = re_sub_fn r (\<lambda>_. repl) s"

text \<open>\<^verbatim>\<open>Match.groups()\<close> for a pattern with \<open>n\<close> groups: \<open>None\<close> for a group that took no part.\<close>

definition groups_of :: "nat \<Rightarrow> rmatch \<Rightarrow> string option list" where
  "groups_of n m = map (\<lambda>k. map_of (m_groups m) k) [1..<Suc n]"


section \<open>Small pieces of Python\<close>

text \<open>
  \<open>py_in x s\<close> is \<^verbatim>\<open>x in s\<close> on strings, \<open>endswith\<close> is \<^verbatim>\<open>str.endswith\<close>, \<open>py_join\<close> is
  \<^verbatim>\<open>sep.join(xs)\<close>, \<open>replace_char\<close> is \<^verbatim>\<open>str.replace\<close> with a one-character text to look
  for. A slice \<^verbatim>\<open>s[:c]\<close> or \<^verbatim>\<open>s[c:]\<close> counts a negative \<open>c\<close> from the end and clips at both
  ends.
\<close>

definition py_in :: "string \<Rightarrow> string \<Rightarrow> bool" where
  "py_in x s = sublist x s"

definition endswith :: "string \<Rightarrow> string \<Rightarrow> bool" where
  "endswith s x = suffix x s"

fun py_join :: "string \<Rightarrow> string list \<Rightarrow> string" where
  "py_join sep [] = []"
| "py_join sep [x] = x"
| "py_join sep (x # y # ys) = x @ sep @ py_join sep (y # ys)"

definition replace_char :: "char \<Rightarrow> string \<Rightarrow> string \<Rightarrow> string" where
  "replace_char old new s = concat (map (\<lambda>c. if c = old then new else [c]) s)"

definition slice_index :: "string \<Rightarrow> int \<Rightarrow> nat" where
  "slice_index s c = (if c < 0 then nat (int (length s) + c) else nat c)"

definition slice_to :: "string \<Rightarrow> int \<Rightarrow> string" where
  "slice_to s c = take (slice_index s c) s"

definition slice_from :: "string \<Rightarrow> int \<Rightarrow> string" where
  "slice_from s c = drop (slice_index s c) s"

text \<open>
  \<^verbatim>\<open>open(f, "r")\<close> reads text with universal newlines: \<^verbatim>\<open>\r\n\<close> and a lone \<^verbatim>\<open>\r\<close> both
  arrive as \<^verbatim>\<open>\n\<close>. \<^verbatim>\<open>readlines\<close> cuts the text that arrives after every newline and
  keeps the newline on its line. \<^verbatim>\<open>writelines\<close> writes the lines one after the other; on the POSIX platform
  modelled here a newline is written as it is.
\<close>

fun universal_newlines :: "string \<Rightarrow> string" where
  "universal_newlines [] = []"
| "universal_newlines (c # cs) =
     (if c = carriage_return then
        (case cs of
           [] \<Rightarrow> [newline]
         | d # ds \<Rightarrow> if d = newline then newline # universal_newlines ds
                     else newline # universal_newlines cs)
      else c # universal_newlines cs)"

primrec split_lines :: "string \<Rightarrow> string \<Rightarrow> string list" where
  "split_lines cur [] = (if cur = [] then [] else [cur])"
| "split_lines cur (c # cs) =
     (if c = newline then (cur @ [c]) # split_lines [] cs else split_lines (cur @ [c]) cs)"

definition readlines :: "string \<Rightarrow> string list" where
  "readlines text = split_lines [] text"

definition writelines :: "string list \<Rightarrow> string" where
  "writelines ls = concat ls"

section \<open>Errors\<close>

text \<open>
  The exceptions that the modelled code can raise. \<open>OSError\<close> stands for the failures of
  the file system (\<^verbatim>\<open>FileNotFoundError\<close>, \<^verbatim>\<open>IsADirectoryError\<close>, \<^verbatim>\<open>NotADirectoryError\<close>,
  \<^verbatim>\<open>FileExistsError\<close>). None of them is caught anywhere in the script.
\<close>

datatype error = ValueError | IndexError | KeyError | OSError

section \<open>Paths\<close>

text \<open>
  A \<^verbatim>\<open>PurePath\<close> of the POSIX flavour: its root (empty, \<^verbatim>\<open>/\<close> or \<^verbatim>\<open>//\<close>) and its parts
  below the root. Parsing drops empty parts and \<^verbatim>\<open>.\<close> parts and keeps \<^verbatim>\<open>..\<close> parts. The
  path separator \<^verbatim>\<open>os.sep\<close> is \<^verbatim>\<open>/\<close>.
\<close>

definition os_sep :: char where
  "os_sep = CHR ''/''"

record PurePath =
  root :: string
  parts :: "string list"

primrec split_on :: "char \<Rightarrow> string \<Rightarrow> string \<Rightarrow> string list" where
  "split_on sep cur [] = [cur]"
| "split_on sep cur (c # cs) =
     (if c = sep then cur # split_on sep [] cs else split_on sep (cur @ [c]) cs)"

definition path_root :: "string \<Rightarrow> string" where
  "path_root s =
     (let slashes = length (takeWhile (\<lambda>c. c = os_sep) s)
      in if slashes = 0 then [] else if slashes = 2 then [os_sep, os_sep] else [os_sep])"

definition pure_path :: "string \<Rightarrow> PurePath" where
  "pure_path s =
     \<lparr>root = path_root s,
      parts = filter (\<lambda>p. p \<noteq> [] \<and> p \<noteq> ''.'') (split_on os_sep [] s)\<rparr>"

definition joinpath :: "PurePath \<Rightarrow> PurePath \<Rightarrow> PurePath" where
  "joinpath p q = (if root q \<noteq> [] then q else \<lparr>root = root p, parts = parts p @ parts q\<rparr>)"

definition relative_to :: "PurePath \<Rightarrow> PurePath \<Rightarrow> error + PurePath" where
  "relative_to p other =
     (if root p = root other \<and> prefix (parts other) (parts p)
      then Inr \<lparr>root = [], parts = drop (length (parts other)) (parts p)\<rparr>
      else Inl ValueError)"

definition path_str :: "PurePath \<Rightarrow> string" where
  "path_str p =
     (if root p = [] \<and> parts p = [] then ''.'' else root p @ py_join [os_sep] (parts p))"

definition parent :: "PurePath \<Rightarrow> PurePath" where
  "parent p = p\<lparr>parts := butlast (parts p)\<rparr>"

text \<open>\<^verbatim>\<open>os.path.join(a, b)\<close> for two strings.\<close>

definition os_path_join :: "string \<Rightarrow> string \<Rightarrow> string" where
  "os_path_join a b =
     (if prefix [os_sep] b then b
      else if a = [] \<or> suffix [os_sep] a then a @ b
      else a @ [os_sep] @ b)"

section \<open>The file system\<close>

text \<open>
  A directory holds its entries by name, in the order in which a scan returns them; a file
  holds its text. The value of type \<open>node\<close> that stands for the file system is its root
  directory. A path reaches its node from the root along its parts: the paths of the
  script are absolute, since \<^verbatim>\<open>main\<close> takes the base directory from a resolved path. Parts
  are looked up as names, so the model covers version directories that are plain names
  (no \<^verbatim>\<open>..\<close>); links are not modelled.
\<close>

datatype node = File string | Dir "(string \<times> node) list"

primrec lookup :: "string list \<Rightarrow> node \<Rightarrow> node option" where
  "lookup [] n = Some n"
| "lookup (s # ss) n =
     (case n of
        File c \<Rightarrow> None
      | Dir es \<Rightarrow> (case map_of es s of None \<Rightarrow> None | Some c \<Rightarrow> lookup ss c))"

text \<open>
  What stands at a path: the text of a file (\<open>None\<close> when no file is there), and whether a
  directory is there.
\<close>

definition file_text :: "node \<Rightarrow> string list \<Rightarrow> string option" where
  "file_text d p = (case lookup p d of Some (File c) \<Rightarrow> Some c | _ \<Rightarrow> None)"

definition is_dir :: "node \<Rightarrow> string list \<Rightarrow> bool" where
  "is_dir d p = (case lookup p d of Some (Dir es) \<Rightarrow> True | _ \<Rightarrow> False)"

text \<open>\<^verbatim>\<open>Path.exists()\<close>: anything at the path, a file or a directory.\<close>

definition path_exists :: "node \<Rightarrow> PurePath \<Rightarrow> bool" where
  "path_exists disk p = (lookup (parts p) disk \<noteq> None)"

text \<open>\<^verbatim>\<open>open(p, "r")\<close> followed by \<^verbatim>\<open>read()\<close>: the text of the file, newlines translated.\<close>

definition read_text :: "node \<Rightarrow> PurePath \<Rightarrow> error + string" where
  "read_text disk p =
     (case lookup (parts p) disk of
        Some (File c) \<Rightarrow> Inr (universal_newlines c)
      | _ \<Rightarrow> Inl OSError)"

text \<open>
  \<^verbatim>\<open>os.makedirs(p, exist_ok=True)\<close>: every missing directory on the way is created; a file
  on the way, or at \<open>p\<close>, is an error, raised before anything is created.
\<close>

primrec makedirs :: "string list \<Rightarrow> node \<Rightarrow> error + node" where
  "makedirs [] n = (case n of File c \<Rightarrow> Inl OSError | Dir es \<Rightarrow> Inr n)"
| "makedirs (s # ss) n =
     (case n of
        File c \<Rightarrow> Inl OSError
      | Dir es \<Rightarrow>
          (case makedirs ss (case map_of es s of None \<Rightarrow> Dir [] | Some c \<Rightarrow> c) of
             Inl e \<Rightarrow> Inl e
           | Inr c' \<Rightarrow> Inr (Dir (AList.update s c' es))))"

text \<open>
  \<^verbatim>\<open>open(p, "w")\<close> followed by a write of the whole text: the directory of \<open>p\<close> has to
  exist, and \<open>p\<close> must not be a directory. A new file is entered last in its directory, an
  old one keeps its place.
\<close>

primrec write_text :: "string list \<Rightarrow> string \<Rightarrow> node \<Rightarrow> error + node" where
  "write_text [] text n = Inl OSError"
| "write_text (s # ss) text n =
     (case n of
        File c \<Rightarrow> Inl OSError
      | Dir es \<Rightarrow>
          (if ss = [] then
             (case map_of es s of
                Some (Dir ds) \<Rightarrow> Inl OSError
              | _ \<Rightarrow> Inr (Dir (AList.update s (File text) es)))
           else
             (case map_of es s of
                None \<Rightarrow> Inl OSError
              | Some c \<Rightarrow>
                  (case write_text ss text c of
                     Inl e \<Rightarrow> Inl e
                   | Inr c' \<Rightarrow> Inr (Dir (AList.update s c' es))))))"

text \<open>
  \<^verbatim>\<open>os.walk(top)\<close>, top-down: the directory itself with the names of its subdirectories
  and of its files, then each subdirectory in turn. The walk of something that is not a
  directory is empty.
\<close>

fun os_walk :: "string \<Rightarrow> node \<Rightarrow> (string \<times> string list \<times> string list) list" where
  "os_walk dir (File c) = []"
| "os_walk dir (Dir es) =
     (dir, [n. (n, c) \<leftarrow> es, case c of Dir ds \<Rightarrow> True | File t \<Rightarrow> False],
           [n. (n, c) \<leftarrow> es, case c of Dir ds \<Rightarrow> False | File t \<Rightarrow> True]) #
     concat (map (\<lambda>(n, c). os_walk (os_path_join dir n) c) es)"

text \<open>What the script sees of the world: the file system and the lines printed so far.\<close>

record world =
  disk :: node
  printed :: "string list"


text \<open>Sequencing of steps that may raise.\<close>

definition and_then :: "error + 'a \<Rightarrow> ('a \<Rightarrow> error + 'b) \<Rightarrow> error + 'b" where
  "and_then r f = (case r of Inl e \<Rightarrow> Inl e | Inr x \<Rightarrow> f x)"

primrec for_each :: "('a \<Rightarrow> world \<Rightarrow> error + world) \<Rightarrow> 'a list \<Rightarrow> world \<Rightarrow> error + world" where
  "for_each body [] w = Inr w"
| "for_each body (x # xs) w = and_then (body x w) (for_each body xs)"

section \<open>The script\<close>

subsection \<open>Constants\<close>

definition REMOVED_REDIRECT_TEMPLATE :: "string list" where
  \<open>REMOVED_REDIRECT_TEMPLATE =
    [''<!DOCTYPE html>\<newline><html lang="en">\<newline>  <head>\<newline>    <meta charset="UTF-8">\<newline>    <meta http-equiv="refresh" content="3; url='',
     ''">\<newline>    <link rel="canonical" href="'',
     ''" />\<newline>  </head>\<newline>  <body>\<newline>    <p>The page does not exist in this version ('',
     ''). You will be redirected to the last available version in 3 seconds.</p>\<newline>    <p>If the page doesn'' @ [CHR 0x27] @ ''t open, click the following link: <a href="'',
     ''">'',
     ''</a></p>\<newline>  </body>\<newline></html>'']\<close>

text \<open>\<^verbatim>\<open>(/)?([^/]+)\<close>\<close>

definition REL_PATH_PATTERN :: regex where
  "REL_PATH_PATTERN = seq [Opt (Group 1 (lit ''/'')), Group 2 (Plus (NoneOf ''/''))]"

text \<open>The patterns that \<^verbatim>\<open>create_canonical_tag\<close> writes in place, in the order of the source:
  \<^verbatim>\<open>meta.*http-equiv=["']refresh["']\<close>,
  \<^verbatim>\<open>^\s*<link rel=["']canonical["'].*?>\n$\<close>,
  \<^verbatim>\<open><link rel=["']canonical["'].*?>\s*\<close>,
  \<^verbatim>\<open>^\s*</head>\n$\<close> and
  \<^verbatim>\<open></head>\s*\<close>.\<close>

definition meta_refresh_pattern :: regex where
  "meta_refresh_pattern =
     seq [lit ''meta'', Star Dot, lit ''http-equiv='', Chr (OneOf quotes), lit ''refresh'',
          Chr (OneOf quotes)]"

definition canon_line_pattern :: regex where
  "canon_line_pattern =
     seq [Bol, Star Space, lit ''<link rel='', Chr (OneOf quotes), lit ''canonical'',
          Chr (OneOf quotes), StarLazy Dot, lit ''>'', Chr (Lit newline), Eol]"

definition canon_tag_pattern :: regex where
  "canon_tag_pattern =
     seq [lit ''<link rel='', Chr (OneOf quotes), lit ''canonical'', Chr (OneOf quotes),
          StarLazy Dot, lit ''>'', Star Space]"

definition head_line_pattern :: regex where
  "head_line_pattern = seq [Bol, Star Space, lit ''</head>'', Chr (Lit newline), Eol]"

definition head_pattern :: regex where
  "head_pattern = seq [lit ''</head>'', Star Space]"

subsection \<open>\<^verbatim>\<open>HTMLTagMatch\<close>\<close>

record HTMLTagMatch =
  line :: "nat option"
  col :: "int option"

definition HTMLTagMatch_init :: HTMLTagMatch where
  "HTMLTagMatch_init = \<lparr>line = None, col = None\<rparr>"

definition set_match :: "HTMLTagMatch \<Rightarrow> nat \<Rightarrow> int \<Rightarrow> HTMLTagMatch" where
  "set_match m l c = (if line m = None then m\<lparr>line := Some l, col := Some c\<rparr> else m)"

subsection \<open>\<^verbatim>\<open>rel_path_replace\<close> and \<^verbatim>\<open>generate_canonical_url\<close>\<close>

text \<open>\<open>rel_path_replace\<close> takes \<^verbatim>\<open>matched.groups()\<close>.\<close>

definition rel_path_replace :: "string option list \<Rightarrow> string" where
  "rel_path_replace matched_groups =
     concat (map (\<lambda>m. case m of
                          None \<Rightarrow> []
                        | Some m \<Rightarrow> if \<not> py_in [os_sep] m then ''..'' else [os_sep])
                 matched_groups)"

definition generate_canonical_url ::
    "PurePath \<Rightarrow> PurePath \<Rightarrow> PurePath \<Rightarrow> string \<Rightarrow> error + (PurePath \<times> string)" where
  "generate_canonical_url base_docs_path canon_file canon_dir_path current_dirname =
     and_then (relative_to canon_file canon_dir_path) (\<lambda>canon_rel.
       let redirect_file =
             joinpath (joinpath base_docs_path (pure_path current_dirname)) canon_rel
       in and_then (relative_to redirect_file base_docs_path) (\<lambda>redirect_rel.
            let redirect_url =
                  pure_path (re_sub_fn REL_PATH_PATTERN
                               (\<lambda>matched. rel_path_replace (groups_of 2 matched))
                               (path_str redirect_rel))
            in and_then (relative_to canon_file base_docs_path) (\<lambda>canon_base_rel.
                 Inr (redirect_file,
                      replace_char os_sep ''/''
                        (path_str (joinpath redirect_url canon_base_rel))))))"

text \<open>
  The URL of the absolute mode, which both callers build in the same way:
  \<^verbatim>\<open>"/" + str(file.relative_to(base_docs_path)).replace(os.sep, "/")\<close>.
\<close>

definition absolute_url :: "PurePath \<Rightarrow> PurePath \<Rightarrow> error + string" where
  "absolute_url base_docs_path file =
     and_then (relative_to file base_docs_path) (\<lambda>rel.
       Inr (''/'' @ replace_char os_sep ''/'' (path_str rel)))"

subsection \<open>\<^verbatim>\<open>create_canonical_tag\<close>\<close>

text \<open>
  The state of the first loop: the lines of the file (the loop rewrites some in place), the
  indices of the lines to delete, and the place of the first \<^verbatim>\<open></head>\<close>.
\<close>

record scan_state =
  c_file :: "string list"
  existing_canon_tags :: "nat list"
  head_closing_tag :: HTMLTagMatch

text \<open>
  The body of the loop \<^verbatim>\<open>for idx, line in enumerate(c_file)\<close>, for one line. Its result
  is \<open>None\<close> when the function returns from inside the loop, at a line of a redirect page.
\<close>

definition scan_line :: "nat \<Rightarrow> string \<Rightarrow> scan_state \<Rightarrow> scan_state option" where
  "scan_line idx ln st =
     (if re_search meta_refresh_pattern ln \<noteq> None then None
      else
        let (st1, char_offset) =
              (if re_match canon_line_pattern ln \<noteq> None
               then (st\<lparr>existing_canon_tags := existing_canon_tags st @ [idx]\<rparr>, 0)
               else (case re_findall canon_tag_pattern ln of
                       [] \<Rightarrow> (st, 0)
                     | t # ts \<Rightarrow>
                         (st\<lparr>c_file := (c_file st)[idx := re_sub canon_tag_pattern [] ln]\<rparr>,
                          sum_list (map length (t # ts)))));
            head = head_closing_tag st1;
            head' =
              (if re_match head_line_pattern ln \<noteq> None \<and> line head = None
               then head\<lparr>line := Some idx\<rparr>
               else (case re_search head_pattern ln of
                       Some head_close_match \<Rightarrow>
                         set_match head idx (int (m_start head_close_match) - int char_offset)
                     | None \<Rightarrow> head))
        in Some (st1\<lparr>head_closing_tag := head'\<rparr>))"

text \<open>The loop itself, over the lines as \<^verbatim>\<open>enumerate\<close> hands them out.\<close>

fun scan_lines :: "(nat \<times> string) list \<Rightarrow> scan_state \<Rightarrow> scan_state option" where
  "scan_lines [] st = Some st"
| "scan_lines ((idx, ln) # rest) st =
     (case scan_line idx ln st of None \<Rightarrow> None | Some st' \<Rightarrow> scan_lines rest st')"

text \<open>
  The loop \<^verbatim>\<open>for idx in sorted(existing_canon_tags, reverse=True)\<close>, on the lines and the
  line index of the head: \<^verbatim>\<open>del c_file[idx]\<close> raises when \<open>idx\<close> is out of range.
\<close>

fun delete_lines :: "nat list \<Rightarrow> string list \<times> nat \<Rightarrow> error + (string list \<times> nat)" where
  "delete_lines [] (ls, head_line) = Inr (ls, head_line)"
| "delete_lines (idx # rest) (ls, head_line) =
     (if idx < length ls
      then delete_lines rest
             (take idx ls @ drop (Suc idx) ls,
              if idx < head_line then head_line - 1 else head_line)
      else Inl IndexError)"

text \<open>
  The last step: the tag goes into the line of the head at the recorded column, or before
  that line as a line of its own. \<^verbatim>\<open>c_file[i]\<close> raises when \<open>i\<close> is out of range;
  \<^verbatim>\<open>insert\<close> does not.
\<close>

definition insert_tag :: "string \<Rightarrow> string list \<Rightarrow> nat \<Rightarrow> int option \<Rightarrow> error + string list" where
  "insert_tag canonical_tag ls head_line head_col =
     (case head_col of
        Some c \<Rightarrow>
          if head_line < length ls
          then Inr (ls[head_line :=
                      slice_to (ls ! head_line) c @ canonical_tag @ '' '' @
                      slice_from (ls ! head_line) c])
          else Inl IndexError
      | None \<Rightarrow> Inr (take head_line ls @ [canonical_tag @ [newline]] @ drop head_line ls))"

text \<open>
  What \<^verbatim>\<open>create_canonical_tag\<close> does with the lines it has read: it returns at a redirect
  page, it prints a message and returns when no \<^verbatim>\<open></head>\<close> was found, it raises, or it
  has new lines to write.
\<close>

datatype stamp_result = IsRedirect | MissingHead | Raised error | Stamped "string list"

definition stamp_lines :: "string \<Rightarrow> string list \<Rightarrow> stamp_result" where
  "stamp_lines canonical_tag ls =
     (case scan_lines (enumerate 0 ls)
             \<lparr>c_file = ls, existing_canon_tags = [], head_closing_tag = HTMLTagMatch_init\<rparr> of
        None \<Rightarrow> IsRedirect
      | Some st \<Rightarrow>
          (case line (head_closing_tag st) of
             None \<Rightarrow> MissingHead
           | Some head_line \<Rightarrow>
               (case delete_lines (rev (sort (existing_canon_tags st))) (c_file st, head_line) of
                  Inl e \<Rightarrow> Raised e
                | Inr (ls', head_line') \<Rightarrow>
                    (case insert_tag canonical_tag ls' head_line' (col (head_closing_tag st)) of
                       Inl e \<Rightarrow> Raised e
                     | Inr ls'' \<Rightarrow> Stamped ls''))))"

definition missing_head_message :: "PurePath \<Rightarrow> string" where
  "missing_head_message current_file =
     ''Unable to update canonical link for '' @ path_str current_file @
     '' due to missing </head> tag''"

definition create_canonical_tag ::
    "PurePath \<Rightarrow> PurePath \<Rightarrow> PurePath \<Rightarrow> string \<Rightarrow> bool \<Rightarrow> world \<Rightarrow> error + world" where
  \<open>create_canonical_tag base_docs_path current_docs_path current_file version use_abs_path w =
     and_then (generate_canonical_url base_docs_path current_file current_docs_path version)
       (\<lambda>(versioned_file, relative_url).
     and_then (if use_abs_path then absolute_url base_docs_path current_file
               else Inr relative_url)
       (\<lambda>canonical_url.
     let canonical_tag = ''<link rel="canonical" href="'' @ canonical_url @ ''">'' in
     and_then (read_text (disk w) current_file)
       (\<lambda>text.
     case stamp_lines canonical_tag (readlines text) of
       IsRedirect \<Rightarrow> Inr w
     | MissingHead \<Rightarrow> Inr (w\<lparr>printed := printed w @ [missing_head_message current_file]\<rparr>)
     | Raised e \<Rightarrow> Inl e
     | Stamped ls \<Rightarrow>
         and_then (write_text (parts current_file) (writelines ls) (disk w))
           (\<lambda>disk'. Inr (w\<lparr>disk := disk'\<rparr>)))))\<close>


subsection \<open>\<^verbatim>\<open>redirect_removed_file\<close>\<close>

text \<open>
  The HTML parser is a library outside the script. The model takes as a parameter the two
  searches that the script makes in a parsed page:
  \<^verbatim>\<open>find("meta", attrs={"http-equiv": "refresh"})\<close> and \<^verbatim>\<open>find("link", rel="canonical")\<close>,
  each giving the attributes of the first such tag of the page, if there is one.
  \<^verbatim>\<open>tag[name]\<close> raises \<^verbatim>\<open>KeyError\<close> for an attribute that the tag does not have.
\<close>

type_synonym tag = "(string \<times> string) list"

record html_parser =
  find_meta_refresh :: "string \<Rightarrow> tag option"
  find_link_canonical :: "string \<Rightarrow> tag option"

definition tag_attr :: "tag \<Rightarrow> string \<Rightarrow> error + string" where
  "tag_attr t name = (case map_of t name of None \<Rightarrow> Inl KeyError | Some v \<Rightarrow> Inr v)"

text \<open>
  The block that looks for a static redirect in the previous page: the URL to redirect
  to, given the text of the page and the URL computed so far.
\<close>

definition static_redirect_url :: "html_parser \<Rightarrow> string \<Rightarrow> string \<Rightarrow> error + string" where
  "static_redirect_url bs prev_text redirect_url =
     (case find_meta_refresh bs prev_text of
        None \<Rightarrow> Inr redirect_url
      | Some static_redirect \<Rightarrow>
          (case find_link_canonical bs prev_text of
             None \<Rightarrow> Inr redirect_url
           | Some canon_link \<Rightarrow>
               and_then (tag_attr canon_link ''href'') (\<lambda>href.
               and_then (tag_attr static_redirect ''content'') (\<lambda>content.
                 Inr (if py_in href content then href else redirect_url)))))"

definition redirect_file_contents :: "string \<Rightarrow> string option \<Rightarrow> string \<Rightarrow> string" where
  "redirect_file_contents redirect_url product_name current_version =
     (if product_name \<noteq> None \<and> product_name \<noteq> Some []
      then py_join redirect_url (take 3 REMOVED_REDIRECT_TEMPLATE) @
           (the product_name @ '' '' @ current_version) @
           py_join redirect_url (drop 3 REMOVED_REDIRECT_TEMPLATE)
      else py_join redirect_url (take 3 REMOVED_REDIRECT_TEMPLATE) @
           current_version @
           py_join redirect_url (drop 3 REMOVED_REDIRECT_TEMPLATE))"

definition redirect_removed_file ::
    "html_parser \<Rightarrow> PurePath \<Rightarrow> PurePath \<Rightarrow> string \<Rightarrow> string \<Rightarrow> string \<Rightarrow> bool \<Rightarrow>
     string option \<Rightarrow> world \<Rightarrow> error + world" where
  "redirect_removed_file bs base_docs_path previous_docs_file current_dirname previous_dirname
       current_version use_abs_path product_name w =
     and_then (generate_canonical_url base_docs_path previous_docs_file
                 (joinpath base_docs_path (pure_path previous_dirname)) current_dirname)
       (\<lambda>(redirect_file, relative_url).
     and_then (if use_abs_path then absolute_url base_docs_path previous_docs_file
               else Inr relative_url)
       (\<lambda>redirect_url.
     if \<not> path_exists (disk w) redirect_file then
       and_then (read_text (disk w) previous_docs_file)
         (\<lambda>prev_text.
       and_then (static_redirect_url bs prev_text redirect_url)
         (\<lambda>redirect_url.
       and_then (makedirs (parts (parent redirect_file)) (disk w))
         (\<lambda>disk1.
       and_then (write_text (parts redirect_file)
                   (redirect_file_contents redirect_url product_name current_version) disk1)
         (\<lambda>disk2. Inr (w\<lparr>disk := disk2\<rparr>)))))
     else Inr w))"

subsection \<open>The walkers\<close>

text \<open>
  \<^verbatim>\<open>os.walk\<close> of a path: of the directory found there, and empty when there is none. The
  files that a walker hands on are listed from the file system as it is when the walk
  begins. The operation of the canonical walker enters and removes no name. The one of the
  redirect walker writes below \<^verbatim>\<open>current_dirname\<close>, which \<^verbatim>\<open>main\<close> sets to \<^verbatim>\<open>latest\<close>, while
  the walk is over the directory of the previous version.
\<close>

definition os_walk_path :: "node \<Rightarrow> PurePath \<Rightarrow> (string \<times> string list \<times> string list) list" where
  "os_walk_path d p =
     (case lookup (parts p) d of None \<Rightarrow> [] | Some n \<Rightarrow> os_walk (path_str p) n)"

definition canonical_tag_walker_files :: "node \<Rightarrow> PurePath \<Rightarrow> PurePath list" where
  "canonical_tag_walker_files d current_docs_path =
     [joinpath (pure_path parent_dir) (pure_path f).
        (parent_dir, dirs, files) \<leftarrow> os_walk_path d current_docs_path,
        f \<leftarrow> files, endswith f ''.html'']"

definition canonical_tag_walker ::
    "PurePath \<Rightarrow> PurePath \<Rightarrow> string \<Rightarrow> bool \<Rightarrow> world \<Rightarrow> error + world" where
  "canonical_tag_walker base_docs_path current_docs_path version use_abs_path w =
     for_each
       (\<lambda>f. create_canonical_tag base_docs_path current_docs_path f version use_abs_path)
       (canonical_tag_walker_files (disk w) current_docs_path) w"

definition redirect_removed_walker_files :: "node \<Rightarrow> PurePath \<Rightarrow> string \<Rightarrow> PurePath list" where
  "redirect_removed_walker_files d base_docs_path previous_dirname =
     [joinpath (pure_path parent_dir) (pure_path f).
        (parent_dir, dirs, files) \<leftarrow>
          os_walk_path d (joinpath base_docs_path (pure_path previous_dirname)),
        f \<leftarrow> files, endswith f ''html'']"

definition redirect_removed_walker ::
    "html_parser \<Rightarrow> PurePath \<Rightarrow> string \<Rightarrow> string \<Rightarrow> string \<Rightarrow> bool \<Rightarrow> string option \<Rightarrow>
     world \<Rightarrow> error + world" where
  "redirect_removed_walker bs base_docs_path current_dirname previous_dirname current_version
       use_abs_path product_name w =
     for_each
       (\<lambda>f. redirect_removed_file bs base_docs_path f current_dirname previous_dirname
               current_version use_abs_path product_name)
       (redirect_removed_walker_files (disk w) base_docs_path previous_dirname) w"


section \<open>Example trees\<close>

text \<open>
  A documentation tree under \<^verbatim>\<open>/docs\<close>, for the concrete runs below: the page
  \<^verbatim>\<open>latest/index.html\<close> has no \<^verbatim>\<open></head>\<close>, and \<^verbatim>\<open>latest/old.html\<close> is a redirect page
  without one.
\<close>

definition docs :: PurePath where
  "docs = \<lparr>root = ''/'', parts = [''docs'']\<rparr>"

definition docs_latest :: PurePath where
  "docs_latest = \<lparr>root = ''/'', parts = [''docs'', ''latest'']\<rparr>"

definition headless_page :: string where
  \<open>headless_page = ''<html><body><p>hi</p></body></html>\<newline>''\<close>

definition headless_redirect_page :: string where
  \<open>headless_redirect_page =
     ''<html>\<newline><meta http-equiv="refresh" content="0; url=new.html">\<newline></html>\<newline>''\<close>

definition headless_disk :: node where
  "headless_disk =
     Dir [(''docs'', Dir [(''latest'',
       Dir [(''index.html'', File headless_page),
            (''old.html'', File headless_redirect_page)])])]"

text \<open>
  Two versions of a small site: \<^verbatim>\<open>27/page.html\<close> has no counterpart in \<^verbatim>\<open>latest\<close>,
  \<^verbatim>\<open>27/old.html\<close> is a static redirect to \<^verbatim>\<open>moved.html\<close> with a canonical link to it, and
  \<^verbatim>\<open>index.html\<close> is in both. \<open>rename_parser\<close> is a parser that finds the two tags of
  \<^verbatim>\<open>old.html\<close> and none in any other text. \<open>redirect_page_27_28\<close> is the redirect page to
  \<^verbatim>\<open>/27/page.html\<close> for version 28, and \<open>rename_disk_after\<close> the site once it is written.
\<close>

definition old_page :: string where
  \<open>old_page =
     ''<html><head>\<newline><meta http-equiv="refresh" content="0; url=moved.html">\<newline><link rel="canonical" href="moved.html">\<newline></head></html>\<newline>''\<close>

definition rename_parser :: html_parser where
  "rename_parser =
     \<lparr>find_meta_refresh = (\<lambda>t. if t = old_page
          then Some [(''http-equiv'', ''refresh''), (''content'', ''0; url=moved.html'')]
          else None),
      find_link_canonical = (\<lambda>t. if t = old_page
          then Some [(''rel'', ''canonical''), (''href'', ''moved.html'')]
          else None)\<rparr>"

definition rename_disk :: node where
  \<open>rename_disk =
     Dir [(''docs'', Dir
       [(''27'', Dir [(''index.html'', File ''<html><head>\<newline></head></html>\<newline>''),
                      (''page.html'', File ''<html><head>\<newline></head><body>27</body></html>\<newline>''),
                      (''old.html'', File old_page)]),
        (''latest'', Dir [(''index.html'', File ''<html><head>\<newline></head></html>\<newline>'')])])]\<close>


definition redirect_page_27_28 :: string where
  \<open>redirect_page_27_28 =
     ''<!DOCTYPE html>\<newline><html lang="en">\<newline>  <head>\<newline>    <meta charset="UTF-8">\<newline>    <meta http-equiv="refresh" content="3; url=/27/page.html">\<newline>    <link rel="canonical" href="/27/page.html" />\<newline>  </head>\<newline>  <body>\<newline>    <p>The page does not exist in this version (28). You will be redirected to the last available version in 3 seconds.</p>\<newline>    <p>If the page doesn'' @ [CHR 0x27] @ ''t open, click the following link: <a href="/27/page.html">/27/page.html</a></p>\<newline>  </body>\<newline></html>''\<close>


definition rename_disk_after :: node where
  \<open>rename_disk_after =
     Dir [(''docs'', Dir
       [(''27'', Dir [(''index.html'', File ''<html><head>\<newline></head></html>\<newline>''),
                      (''page.html'', File ''<html><head>\<newline></head><body>27</body></html>\<newline>''),
                      (''old.html'', File old_page)]),
        (''latest'', Dir [(''index.html'', File ''<html><head>\<newline></head></html>\<newline>''),
                          (''page.html'', File redirect_page_27_28)])])]\<close>

text \<open>
  A site of one page, \<^verbatim>\<open>/docs/latest/index.html\<close>, and texts for that page.
  In \<open>split_head_page\<close> the line of \<^verbatim>\<open></head>\<close> goes on with \<^verbatim>\<open><body>\<close>; in
  \<open>shared_line_page\<close> a canonical link shares its line with another tag. \<open>xhtml_disk\<close> is a
  site whose version 27 holds a file \<^verbatim>\<open>notes.xhtml\<close>.
\<close>

definition page_disk :: "string \<Rightarrow> node" where
  "page_disk page = Dir [(''docs'', Dir [(''latest'', Dir [(''index.html'', File page)])])]"

definition split_head_page :: string where
  \<open>split_head_page =
     ''<html><head>\<newline><title>T</title>\<newline></head><body>\<newline><p>hi</p>\<newline></body></html>\<newline>''\<close>

definition split_head_page_once :: string where
  \<open>split_head_page_once =
     ''<html><head>\<newline><title>T</title>\<newline><link rel="canonical" href="/latest/index.html"> </head><body>\<newline><p>hi</p>\<newline></body></html>\<newline>''\<close>

definition split_head_page_twice :: string where
  \<open>split_head_page_twice =
     ''<html><head>\<newline><title>T</title>\<newline><p>hi</p>\<newline><link rel="canonical" href="/latest/index.html"> </body></html>\<newline>''\<close>

definition shared_line_page :: string where
  \<open>shared_line_page =
     ''<html><head>\<newline><link rel="canonical" href="old.html"><meta charset="utf-8">\<newline></head>\<newline><body></body></html>\<newline>''\<close>

definition shared_line_page_stamped :: string where
  \<open>shared_line_page_stamped =
     ''<html><head>\<newline><link rel="canonical" href="/latest/index.html">\<newline></head>\<newline><body></body></html>\<newline>''\<close>

definition xhtml_disk :: node where
  \<open>xhtml_disk =
     Dir [(''docs'', Dir
       [(''27'', Dir [(''page.html'', File ''<html><head>\<newline></head></html>\<newline>''),
                      (''notes.xhtml'', File ''<html/>\<newline>''),
                      (''style.css'', File ''p {}\<newline>'')]),
        (''latest'', Dir [])])]\<close>


text \<open>
  A page whose \<^verbatim>\<open></head>\<close> has a line of its own, and the same page with its canonical
  link.
\<close>

definition plain_page :: string where
  \<open>plain_page =
     ''<html>\<newline><head>\<newline><title>T</title>\<newline>  </head>\<newline><body></body>\<newline></html>\<newline>''\<close>

definition plain_page_stamped :: string where
  \<open>plain_page_stamped =
     ''<html>\<newline><head>\<newline><title>T</title>\<newline><link rel="canonical" href="/latest/index.html">\<newline>  </head>\<newline><body></body>\<newline></html>\<newline>''\<close>


section \<open>Resolving a relative URL\<close>

text \<open>
  Not part of the script: the way in which a reader of a page resolves a relative URL,
  which C6 needs in order to be stated. The URL is joined to the directory of the page;
  then a \<^verbatim>\<open>.\<close> part is dropped and a \<^verbatim>\<open>..\<close> part drops the part before it (at the root, nothing).
\<close>

fun remove_dot_segments :: "string list \<Rightarrow> string list \<Rightarrow> string list" where
  "remove_dot_segments seen [] = rev seen"
| "remove_dot_segments seen (p # ps) =
     (if p = ''.'' then remove_dot_segments seen ps
      else if p = ''..'' then remove_dot_segments (tl seen) ps
      else remove_dot_segments (p # seen) ps)"

definition resolve_from :: "PurePath \<Rightarrow> string \<Rightarrow> PurePath" where
  "resolve_from dir url =
     (let joined = joinpath dir (pure_path url)
      in joined\<lparr>parts := remove_dot_segments [] (parts joined)\<rparr>)"


section \<open>Facts about the matcher\<close>

text \<open>The patterns of the script on sample lines.\<close>

lemma canon_line_pattern_example:
  \<open>re_match canon_line_pattern ''<link rel="canonical" href="a"> </head><body>\<newline>'' =
     Some \<lparr>m_start = 0, m_end = 46, m_groups = []\<rparr>\<close>
  by code_simp

lemma canon_tag_pattern_example:
  \<open>re_findall canon_tag_pattern ''<p><link rel="canonical" href="a">  </p></head>\<newline>'' =
     [''<link rel="canonical" href="a">  ''] \<and>
   re_sub canon_tag_pattern [] ''<p><link rel="canonical" href="a">  </p></head>\<newline>'' =
     ''<p></p></head>\<newline>''\<close>
  by code_simp

lemma head_pattern_example:
  \<open>re_search head_pattern ''<p></p></head>  <body>\<newline>'' =
     Some \<lparr>m_start = 7, m_end = 16, m_groups = []\<rparr> \<and>
   re_match head_line_pattern ''<p></p></head>  <body>\<newline>'' = None \<and>
   re_match head_line_pattern ''  </head>\<newline>'' = Some \<lparr>m_start = 0, m_end = 10, m_groups = []\<rparr>\<close>
  by code_simp

lemma REL_PATH_PATTERN_example:
  "map (\<lambda>(m, t). (t, groups_of 2 m)) (re_finditer REL_PATH_PATTERN ''latest/sub/page.html'') =
     [(''latest'', [None, Some ''latest'']), (''/sub'', [Some ''/'', Some ''sub'']),
      (''/page.html'', [Some ''/'', Some ''page.html''])] \<and>
   re_sub_fn REL_PATH_PATTERN (\<lambda>matched. rel_path_replace (groups_of 2 matched))
     ''latest/sub/page.html'' = ''../../..''"
  by code_simp

lemma ends_lit:
  "ends (lit s) (i, u, g) = (if prefix s u then [(i + length s, drop (length s) u, g)] else [])"
proof (induction s arbitrary: i u)
  case Nil
  show ?case by simp
next
  case (Cons c s)
  show ?case
  proof (cases u)
    case Nil
    then show ?thesis by simp
  next
    case (Cons x xs)
    then show ?thesis using Cons.IH [of "Suc i" xs] by simp
  qed
qed

lemma star_greedy_suffix: "(j, t) \<in> set (star_greedy c i s) \<Longrightarrow> suffix t s"
  by (induction s arbitrary: i) (auto simp: suffix_Cons split: if_splits)

lemma star_greedy_run:
  "\<forall>x \<in> set run. cmatch c x \<Longrightarrow> (i + length run, rest) \<in> set (star_greedy c i (run @ rest))"
proof (induction run arbitrary: i)
  case Nil
  show ?case by (cases rest) simp_all
next
  case (Cons x run)
  from Cons.prems have "\<forall>x \<in> set run. cmatch c x" by simp
  from Cons.IH [OF this, of "Suc i"] Cons.prems show ?case by simp
qed

lemma search_from_None:
  "(\<And>k. k \<le> length s \<Longrightarrow> ends r (i + k, drop k s, []) = []) \<Longrightarrow> search_from r i s = None"
proof (induction s arbitrary: i)
  case Nil
  from Nil [of 0] show ?case by simp
next
  case (Cons x xs)
  have "ends r (i, x # xs, []) = []" using Cons.prems [of 0] by simp
  moreover have "search_from r (Suc i) xs = None"
  proof (rule Cons.IH)
    fix k assume "k \<le> length xs"
    then show "ends r (Suc i + k, drop k xs, []) = []" using Cons.prems [of "Suc k"] by simp
  qed
  ultimately show ?case by simp
qed


lemma no_head_search:
  assumes "\<not> sublist ''</head>'' ln"
  shows "re_search head_pattern ln = None"
  unfolding re_search_def
proof (rule search_from_None)
  fix k assume "k \<le> length ln"
  have "\<not> prefix ''</head>'' (drop k ln)"
    using assms by (metis sublist_altdef' suffix_drop)
  then show "ends head_pattern (0 + k, drop k ln, []) = []"
    by (simp add: head_pattern_def ends_lit del: lit.simps)
qed

lemma no_head_match:
  assumes "\<not> sublist ''</head>'' ln"
  shows "re_match head_line_pattern ln = None"
proof -
  have "ends (lit ''</head>'') (j, t, g) = []" if "(j, t) \<in> set (star_greedy Space 0 ln)" for j t g
  proof -
    from that have "suffix t ln" by (rule star_greedy_suffix)
    with assms have "\<not> prefix ''</head>'' t" by (metis sublist_altdef')
    then show ?thesis by (simp add: ends_lit del: lit.simps)
  qed
  then have "ends head_line_pattern (0, ln, []) = []"
    by (auto simp: head_line_pattern_def simp del: lit.simps)
  then show ?thesis by (simp add: re_match_def)
qed

lemma ends_Seq_nonempty:
  "ends (Seq a b) st \<noteq> [] \<longleftrightarrow> (\<exists>st' \<in> set (ends a st). ends b st' \<noteq> [])"
  by auto




lemma finditer_from_Nil:
  "(\<And>k. k \<le> length s \<Longrightarrow> ends r (i + k, drop k s, []) = []) \<Longrightarrow> finditer_from r b i s = []"
proof (induction s arbitrary: i b)
  case Nil
  from Nil [of 0] show ?case by (simp add: finditer_from.simps [of r b i "[]"])
next
  case (Cons x xs)
  have here: "ends r (i, x # xs, []) = []" using Cons.prems [of 0] by simp
  have "finditer_from r False (Suc i) xs = []"
  proof (rule Cons.IH)
    fix k assume "k \<le> length xs"
    then show "ends r (Suc i + k, drop k xs, []) = []" using Cons.prems [of "Suc k"] by simp
  qed
  with here show ?case by (simp add: finditer_from.simps [of r b i "x # xs"])
qed

lemma ends_Seq_empty:
  "(\<And>st'. st' \<in> set (ends a st) \<Longrightarrow> ends b st' = []) \<Longrightarrow> ends (Seq a b) st = []"
  by auto

lemma ends_Seq_lit_if:
  "ends (Seq (lit x) r) (i, s, g) =
     (if prefix x s then ends r (i + length x, drop (length x) s, g) else [])"
  by (simp add: ends_lit)

lemma ends_Star_suffix:
  "st' \<in> set (ends (Star c) (i, s, g)) \<Longrightarrow> suffix (fst (snd st')) s"
  by (auto dest: star_greedy_suffix)

lemma no_link_findall:
  assumes "\<not> sublist ''<link rel='' ln"
  shows "re_findall canon_tag_pattern ln = []"
proof -
  have "finditer_from canon_tag_pattern False 0 ln = []"
  proof (rule finditer_from_Nil)
    fix k assume "k \<le> length ln"
    have "\<not> prefix ''<link rel='' (drop k ln)"
      using assms by (metis sublist_altdef' suffix_drop)
    then show "ends canon_tag_pattern (0 + k, drop k ln, []) = []"
      by (simp add: canon_tag_pattern_def ends_lit del: lit.simps)
  qed
  then show ?thesis by (simp add: re_findall_def re_finditer_def)
qed

lemma no_link_match:
  assumes "\<not> sublist ''<link rel='' ln"
  shows "re_match canon_line_pattern ln = None"
proof -
  have "ends (lit ''<link rel='') (j, t, g) = []" if "(j, t) \<in> set (star_greedy Space 0 ln)" for j t g
  proof -
    from that have "suffix t ln" by (rule star_greedy_suffix)
    with assms have "\<not> prefix ''<link rel='' t" by (metis sublist_altdef')
    then show ?thesis by (simp add: ends_lit del: lit.simps)
  qed
  then have "ends canon_line_pattern (0, ln, []) = []"
    by (auto simp: canon_line_pattern_def simp del: lit.simps)
  then show ?thesis by (simp add: re_match_def)
qed

lemma no_http_equiv_search:
  assumes "\<not> sublist ''http-equiv='' ln"
  shows "re_search meta_refresh_pattern ln = None"
  unfolding re_search_def
proof (rule search_from_None)
  fix k assume "k \<le> length ln"
  let ?tail = "seq [lit ''http-equiv='', Chr (OneOf quotes), lit ''refresh'', Chr (OneOf quotes)]"
  have step: "ends meta_refresh_pattern (i, s, g) =
      (if prefix ''meta'' s
       then ends (Seq (Star Dot) ?tail) (i + length ''meta'', drop (length ''meta'') s, g)
       else [])" for i s g
    unfolding meta_refresh_pattern_def seq.simps by (rule ends_Seq_lit_if)
  have tail: "ends (Seq (Star Dot) ?tail) (i, u, g) = []" if u: "suffix u ln" for i u g
  proof (rule ends_Seq_empty)
    fix st' assume st': "st' \<in> set (ends (Star Dot) (i, u, g))"
    obtain j t g' where eq: "st' = (j, t, g')" by (cases st')
    from st' have "suffix (fst (snd st')) u" by (rule ends_Star_suffix)
    with u eq have "suffix t ln" using suffix_order.trans by auto
    with assms have "\<not> prefix ''http-equiv='' t" by (metis sublist_altdef')
    then show "ends ?tail st' = []"
      unfolding seq.simps eq by (simp only: ends_Seq_lit_if if_False)
  qed
  have "suffix (drop (length ''meta'') (drop k ln)) ln"
    by (metis suffix_drop suffix_order.trans)
  from tail [OF this] show "ends meta_refresh_pattern (0 + k, drop k ln, []) = []"
    by (simp only: step if_cancel)
qed

lemma head_line_recognised:
  assumes "set ws \<subseteq> set whitespace"
  shows "re_match head_line_pattern (ws @ ''</head>'' @ [newline]) \<noteq> None"
proof -
  let ?rest = "''</head>'' @ [newline]"
  let ?tail = "seq [lit ''</head>'', Chr (Lit newline), Eol]"
  have sp: "\<forall>x \<in> set ws. cmatch Space x" using assms by auto
  have "(0 + length ws, ?rest) \<in> set (star_greedy Space 0 (ws @ ?rest))"
    using star_greedy_run [OF sp] .
  then have "(0 + length ws, ?rest, []) \<in> set (ends (Star Space) (0, ws @ ?rest, []))"
    by force
  moreover have "ends ?tail (0 + length ws, ?rest, []) \<noteq> []"
    by (simp add: ends_lit del: lit.simps)
  ultimately have "ends (Seq (Star Space) ?tail) (0, ws @ ?rest, []) \<noteq> []"
    unfolding ends_Seq_nonempty by blast
  moreover have "ends head_line_pattern (0, ws @ ?rest, []) =
      ends (Seq (Star Space) ?tail) (0, ws @ ?rest, [])"
    unfolding head_line_pattern_def seq.simps(2) [of Bol] by simp
  ultimately have "ends head_line_pattern (0, ws @ ?rest, []) \<noteq> []"
    by metis
  then show ?thesis by (auto simp: re_match_def split: list.splits)
qed

section \<open>Facts about the loop over the lines\<close>

lemma scan_lines_redirect:
  "(idx, ln) \<in> set xs \<Longrightarrow> re_search meta_refresh_pattern ln \<noteq> None \<Longrightarrow> scan_lines xs st = None"
proof (induction xs arbitrary: st)
  case Nil
  then show ?case by simp
next
  case (Cons p xs)
  obtain i l where p: "p = (i, l)" by (cases p)
  show ?case
  proof (cases "re_search meta_refresh_pattern l = None")
    case False
    then show ?thesis by (simp add: p scan_line_def)
  next
    case True
    with Cons.prems p have "(idx, ln) \<in> set xs" by auto
    then show ?thesis
      using Cons.IH Cons.prems(2) by (simp add: p split: option.splits)
  qed
qed

lemma scan_line_no_redirect:
  "re_search meta_refresh_pattern ln = None \<Longrightarrow> scan_line idx ln st \<noteq> None"
  by (simp add: scan_line_def Let_def split: prod.splits)

lemma scan_lines_no_redirect:
  "\<forall>p \<in> set xs. re_search meta_refresh_pattern (snd p) = None \<Longrightarrow> scan_lines xs st \<noteq> None"
proof (induction xs arbitrary: st)
  case Nil
  then show ?case by simp
next
  case (Cons p xs)
  obtain i l where p: "p = (i, l)" by (cases p)
  from Cons.prems p obtain st' where "scan_line i l st = Some st'"
    using scan_line_no_redirect [of l i st] by auto
  with Cons show ?case by (simp add: p)
qed

lemma scan_line_no_head:
  assumes "\<not> sublist ''</head>'' ln" "scan_line idx ln st = Some st'"
  shows "head_closing_tag st' = head_closing_tag st"
  using assms(2)
  by (auto simp: scan_line_def Let_def no_head_match [OF assms(1)] no_head_search [OF assms(1)]
           split: if_splits prod.splits list.splits)

lemma scan_lines_no_head:
  assumes "\<forall>p \<in> set xs. \<not> sublist ''</head>'' (snd p)" "scan_lines xs st = Some st'"
  shows "head_closing_tag st' = head_closing_tag st"
  using assms
proof (induction xs arbitrary: st)
  case Nil
  then show ?case by simp
next
  case (Cons p xs)
  obtain i l where p: "p = (i, l)" by (cases p)
  from Cons.prems(2) p obtain st1 where
    st1: "scan_line i l st = Some st1" "scan_lines xs st1 = Some st'"
    by (auto split: option.splits)
  from Cons.prems(1) p have "head_closing_tag st1 = head_closing_tag st"
    using scan_line_no_head [OF _ st1(1)] by simp
  moreover from Cons.prems(1) have "head_closing_tag st' = head_closing_tag st1"
    using Cons.IH [OF _ st1(2)] by simp
  ultimately show ?case by simp
qed

section \<open>Facts about reading\<close>



lemma stamp_lines_redirect:
  assumes "ln \<in> set ls" "re_search meta_refresh_pattern ln \<noteq> None"
  shows "stamp_lines tag ls = IsRedirect"
proof -
  from assms(1) obtain idx where "idx < length ls" "ls ! idx = ln"
    by (auto simp: in_set_conv_nth)
  then have "(idx, ln) \<in> set (enumerate 0 ls)"
    by (simp add: in_set_enumerate_eq)
  from scan_lines_redirect [OF this assms(2)] show ?thesis
    by (simp add: stamp_lines_def)
qed

lemma stamp_lines_missing_head:
  assumes "\<forall>ln \<in> set ls. \<not> sublist ''</head>'' ln"
    and "\<forall>ln \<in> set ls. re_search meta_refresh_pattern ln = None"
  shows "stamp_lines tag ls = MissingHead"
proof -
  let ?st = "\<lparr>c_file = ls, existing_canon_tags = [], head_closing_tag = HTMLTagMatch_init\<rparr>"
  have set_snd: "snd ` set (enumerate 0 ls) = set ls"
    by (metis list.set_map map_snd_enumerate)
  from assms(2) set_snd have "\<forall>p \<in> set (enumerate 0 ls). re_search meta_refresh_pattern (snd p) = None"
    by auto
  from scan_lines_no_redirect [OF this] obtain st' where
    st': "scan_lines (enumerate 0 ls) ?st = Some st'" by blast
  from assms(1) set_snd have "\<forall>p \<in> set (enumerate 0 ls). \<not> sublist ''</head>'' (snd p)"
    by auto
  from scan_lines_no_head [OF this st'] have "line (head_closing_tag st') = None"
    by (simp add: HTMLTagMatch_init_def)
  with st' show ?thesis by (simp add: stamp_lines_def)
qed

lemma generate_canonical_url_Inr:
  assumes "generate_canonical_url b f d n = Inr (rf, u)"
  shows "\<exists>rel r. relative_to f d = Inr rel \<and> rf = joinpath (joinpath b (pure_path n)) rel \<and>
           relative_to f b = Inr r"
  using assms
  by (auto simp: generate_canonical_url_def and_then_def Let_def split: sum.splits)

lemma absolute_url_Inr:
  assumes "generate_canonical_url b f d n = Inr u"
  shows "\<exists>url. absolute_url b f = Inr url"
proof -
  obtain rf v where "u = (rf, v)" by (cases u)
  with generate_canonical_url_Inr [of b f d n rf v] assms show ?thesis
    by (auto simp: absolute_url_def and_then_def)
qed


section \<open>Redirect pages and pages without a head\<close>

lemma stamp_lines_no_head:
  assumes "\<forall>ln \<in> set ls. \<not> sublist ''</head>'' ln"
  shows "stamp_lines tg ls =
           (if \<exists>ln \<in> set ls. re_search meta_refresh_pattern ln \<noteq> None then IsRedirect
            else MissingHead)"
  using stamp_lines_redirect stamp_lines_missing_head [OF assms] by auto



text \<open>
  C7, as the code has it. A page none of whose lines holds \<^verbatim>\<open></head>\<close> is never written:
  \<^verbatim>\<open>create_canonical_tag\<close> returns with the file system as it was. It prints its message
  about the missing \<^verbatim>\<open></head>\<close>, unless a line of the page makes it a redirect page: then
  it returns at that line and prints nothing. Either way the walk goes on with the files
  that follow.
\<close>

theorem missing_head_is_skipped:
  assumes gen: "generate_canonical_url base_docs_path current_file current_docs_path version = Inr u"
    and rd: "read_text (disk w) current_file = Inr text"
    and nohead: "\<forall>ln \<in> set (readlines text). \<not> sublist ''</head>'' ln"
    and report: "report =
      (if \<exists>ln \<in> set (readlines text). re_search meta_refresh_pattern ln \<noteq> None then []
       else [missing_head_message current_file])"
  shows "create_canonical_tag base_docs_path current_docs_path current_file version use_abs_path w
           = Inr (w\<lparr>printed := printed w @ report\<rparr>)
       \<and> for_each (\<lambda>f. create_canonical_tag base_docs_path current_docs_path f version use_abs_path)
           (current_file # others) w
         = for_each (\<lambda>f. create_canonical_tag base_docs_path current_docs_path f version use_abs_path)
             others (w\<lparr>printed := printed w @ report\<rparr>)"
proof -
  have "stamp_lines tg (readlines text) =
      (if \<exists>ln \<in> set (readlines text). re_search meta_refresh_pattern ln \<noteq> None then IsRedirect
       else MissingHead)" for tg
    using stamp_lines_no_head [OF nohead] .
  moreover obtain url where "absolute_url base_docs_path current_file = Inr url"
    using absolute_url_Inr [OF gen] by blast
  moreover obtain vf rel where "u = (vf, rel)" by (cases u)
  ultimately have "create_canonical_tag base_docs_path current_docs_path current_file version use_abs_path w
           = Inr (w\<lparr>printed := printed w @ report\<rparr>)"
    using gen rd by (simp add: create_canonical_tag_def and_then_def Let_def report)
  then show ?thesis by (simp add: and_then_def)
qed


theorem missing_head_is_skipped_witness:
  \<open>create_canonical_tag docs docs_latest (joinpath docs_latest (pure_path ''index.html''))
     ''latest'' True \<lparr>disk = headless_disk, printed = []\<rparr>
   = Inr \<lparr>disk = headless_disk,
          printed = [''Unable to update canonical link for /docs/latest/index.html due to missing </head> tag'']\<rparr>
   \<and> for_each (\<lambda>f. create_canonical_tag docs docs_latest f ''latest'' True)
       [joinpath docs_latest (pure_path ''index.html''),
        joinpath docs_latest (pure_path ''old.html'')]
       \<lparr>disk = headless_disk, printed = []\<rparr>
   = Inr \<lparr>disk = headless_disk,
          printed = [''Unable to update canonical link for /docs/latest/index.html due to missing </head> tag'']\<rparr>\<close>
proof -
  let ?f = "joinpath docs_latest (pure_path ''index.html'')"
  let ?g = "joinpath docs_latest (pure_path ''old.html'')"
  let ?w = "\<lparr>disk = headless_disk, printed = []\<rparr>"
  let ?msg = \<open>''Unable to update canonical link for /docs/latest/index.html due to missing </head> tag''\<close>
  have gen: "generate_canonical_url docs ?f docs_latest ''latest'' =
      Inr (\<lparr>root = ''/'', parts = [''docs'', ''latest'', ''index.html'']\<rparr>,
           ''../../latest/index.html'')"
    by code_simp
  have rd: "read_text (disk ?w) ?f = Inr headless_page"
    by code_simp
  have nohead: "\<forall>ln \<in> set (readlines headless_page). \<not> sublist ''</head>'' ln"
    by code_simp
  have report: "[?msg] =
      (if \<exists>ln \<in> set (readlines headless_page). re_search meta_refresh_pattern ln \<noteq> None then []
       else [missing_head_message ?f])"
    by code_simp
  have rest: "for_each (\<lambda>f. create_canonical_tag docs docs_latest f ''latest'' True) [?g]
      \<lparr>disk = headless_disk, printed = [?msg]\<rparr> = Inr \<lparr>disk = headless_disk, printed = [?msg]\<rparr>"
    by code_simp
  from missing_head_is_skipped [OF gen rd nohead report, of True "[?g]"] rest
  show ?thesis by (simp del: for_each.simps)
qed

text \<open>
  C7, as the claim has it, fails on a redirect page without \<^verbatim>\<open></head>\<close>: the page is left
  as it is, and nothing is printed.
\<close>

theorem missing_head_unreported_counterexample:
  \<open>\<not> sublist ''</head>'' headless_redirect_page \<and>
   create_canonical_tag docs docs_latest (joinpath docs_latest (pure_path ''old.html''))
     ''latest'' False \<lparr>disk = headless_disk, printed = []\<rparr>
   = Inr \<lparr>disk = headless_disk, printed = []\<rparr>\<close>
  by code_simp


section \<open>Facts about the file system\<close>

lemma lookup_empty_dir: "lookup q (Dir []) = (if q = [] then Some (Dir []) else None)"
  by (cases q) simp_all

lemma makedirs_file_text:
  "makedirs p d = Inr d' \<Longrightarrow> file_text d' q = file_text d q"
proof (induction p arbitrary: d d' q)
  case Nil
  then show ?case by (cases d) simp_all
next
  case (Cons s ss)
  from Cons.prems obtain es where d: "d = Dir es" by (cases d) simp_all
  let ?child = "case map_of es s of None \<Rightarrow> Dir [] | Some c \<Rightarrow> c"
  from Cons.prems d obtain c' where
    c': "makedirs ss ?child = Inr c'" and d': "d' = Dir (AList.update s c' es)"
    by (auto split: sum.splits)
  show ?case
  proof (cases q)
    case Nil
    then show ?thesis by (simp add: d d' file_text_def)
  next
    case (Cons t q')
    show ?thesis
    proof (cases "t = s")
      case False
      then show ?thesis by (simp add: Cons d d' file_text_def update_conv')
    next
      case True
      have "file_text c' q' = file_text ?child q'" using Cons.IH [OF c'] .
      then show ?thesis
        by (simp add: Cons True d d' file_text_def update_conv' lookup_empty_dir
            split: option.splits)
    qed
  qed
qed

lemma makedirs_is_dir:
  "makedirs p d = Inr d' \<Longrightarrow> is_dir d' q \<longleftrightarrow> is_dir d q \<or> prefix q p"
proof (induction p arbitrary: d d' q)
  case Nil
  then show ?case by (cases d) (auto simp: is_dir_def)
next
  case (Cons s ss)
  from Cons.prems obtain es where d: "d = Dir es" by (cases d) simp_all
  let ?child = "case map_of es s of None \<Rightarrow> Dir [] | Some c \<Rightarrow> c"
  from Cons.prems d obtain c' where
    c': "makedirs ss ?child = Inr c'" and d': "d' = Dir (AList.update s c' es)"
    by (auto split: sum.splits)
  show ?case
  proof (cases q)
    case Nil
    then show ?thesis by (simp add: d d' is_dir_def)
  next
    case (Cons t q')
    show ?thesis
    proof (cases "t = s")
      case False
      then show ?thesis by (simp add: Cons d d' is_dir_def update_conv')
    next
      case True
      have "is_dir c' q' \<longleftrightarrow> is_dir ?child q' \<or> prefix q' ss" using Cons.IH [OF c'] .
      then show ?thesis
        by (auto simp: Cons True d d' is_dir_def update_conv' lookup_empty_dir
            split: option.splits if_splits)
    qed
  qed
qed

lemma write_text_file_text:
  "write_text p c d = Inr d' \<Longrightarrow> file_text d' q = (if q = p then Some c else file_text d q)"
proof (induction p arbitrary: d d' q)
  case Nil
  then show ?case by simp
next
  case (Cons s ss)
  from Cons.prems obtain es where d: "d = Dir es" by (cases d) simp_all
  show ?case
  proof (cases "ss = []")
    case True
    with Cons.prems d have d': "d' = Dir (AList.update s (File c) es)"
      by (auto split: option.splits node.splits)
    show ?thesis
    proof (cases q)
      case Nil
      then show ?thesis by (simp add: d d' file_text_def)
    next
      case (Cons t q')
      from Cons.prems d True have nodir: "\<And>ds. map_of es s \<noteq> Some (Dir ds)"
        by (auto split: option.splits node.splits)
      show ?thesis
        using nodir
        by (cases q') (auto simp: Cons True d d' file_text_def update_conv'
            split: option.splits node.splits)
    qed
  next
    case False
    with Cons.prems d obtain ch c' where
      ch: "map_of es s = Some ch" and c': "write_text ss c ch = Inr c'"
      and d': "d' = Dir (AList.update s c' es)"
      by (auto split: option.splits sum.splits)
    have IH: "file_text c' q' = (if q' = ss then Some c else file_text ch q')" for q'
      using Cons.IH [OF c'] .
    show ?thesis
    proof (cases q)
      case Nil
      then show ?thesis by (simp add: d d' file_text_def)
    next
      case (Cons t q')
      then show ?thesis
        using IH [of q'] by (auto simp: d d' ch file_text_def update_conv')
    qed
  qed
qed

lemma write_text_is_dir:
  "write_text p c d = Inr d' \<Longrightarrow> is_dir d' q = is_dir d q"
proof (induction p arbitrary: d d' q)
  case Nil
  then show ?case by simp
next
  case (Cons s ss)
  from Cons.prems obtain es where d: "d = Dir es" by (cases d) simp_all
  show ?case
  proof (cases "ss = []")
    case True
    with Cons.prems d have d': "d' = Dir (AList.update s (File c) es)"
      by (auto split: option.splits node.splits)
    from Cons.prems d True have nodir: "\<And>ds. map_of es s \<noteq> Some (Dir ds)"
      by (auto split: option.splits node.splits)
    show ?thesis
    proof (cases q)
      case Nil
      then show ?thesis by (simp add: d d' is_dir_def)
    next
      case (Cons t q')
      show ?thesis
        using nodir
        by (cases q') (auto simp: Cons True d d' is_dir_def update_conv'
            split: option.splits node.splits)
    qed
  next
    case False
    with Cons.prems d obtain ch c' where
      ch: "map_of es s = Some ch" and c': "write_text ss c ch = Inr c'"
      and d': "d' = Dir (AList.update s c' es)"
      by (auto split: option.splits sum.splits)
    have IH: "is_dir c' q' = is_dir ch q'" for q'
      using Cons.IH [OF c'] .
    show ?thesis
    proof (cases q)
      case Nil
      then show ?thesis by (simp add: d d' is_dir_def)
    next
      case (Cons t q')
      then show ?thesis
        using IH [of q'] by (auto simp: d d' ch is_dir_def update_conv')
    qed
  qed
qed

lemma write_text_succeeds:
  "p \<noteq> [] \<Longrightarrow> is_dir d (butlast p) \<Longrightarrow> \<not> is_dir d p \<Longrightarrow> \<exists>d'. write_text p c d = Inr d'"
proof (induction p arbitrary: d)
  case Nil
  then show ?case by simp
next
  case (Cons s ss)
  from Cons.prems(2) obtain es where d: "d = Dir es"
    by (cases d) (auto simp: is_dir_def split: if_splits)
  show ?case
  proof (cases "ss = []")
    case True
    with Cons.prems(3) d show ?thesis
      by (auto simp: is_dir_def split: option.splits node.splits)
  next
    case False
    with Cons.prems(2) d obtain ch where ch: "map_of es s = Some ch"
      by (auto simp: is_dir_def split: option.splits)
    from Cons.prems False d ch have "is_dir ch (butlast ss)" "\<not> is_dir ch ss"
      by (auto simp: is_dir_def)
    from Cons.IH [OF False this] obtain c' where "write_text ss c ch = Inr c'" by blast
    then show ?thesis by (simp add: d ch False)
  qed
qed

lemma makedirs_existing: "is_dir d p \<Longrightarrow> makedirs p d = Inr d"
proof (induction p arbitrary: d)
  case Nil
  then show ?case by (cases d) (simp_all add: is_dir_def)
next
  case (Cons s ss)
  from Cons.prems obtain es where d: "d = Dir es"
    by (cases d) (auto simp: is_dir_def)
  with Cons.prems obtain c where c: "map_of es s = Some c" "is_dir c ss"
    by (auto simp: is_dir_def split: option.splits)
  from Cons.IH [OF c(2)] c(1) show ?case
    by (simp add: d update_triv)
qed

lemma makedirs_succeeds:
  "(\<And>q. prefix q p \<Longrightarrow> file_text d q = None) \<Longrightarrow> \<exists>d'. makedirs p d = Inr d'"
proof (induction p arbitrary: d)
  case Nil
  from Nil [of "[]"] show ?case by (cases d) (simp_all add: file_text_def)
next
  case (Cons s ss)
  from Cons.prems [of "[]"] obtain es where d: "d = Dir es"
    by (cases d) (simp_all add: file_text_def)
  let ?child = "case map_of es s of None \<Rightarrow> Dir [] | Some c \<Rightarrow> c"
  have "file_text ?child q = None" if "prefix q ss" for q
    using Cons.prems [of "s # q"] that
    by (auto simp: d file_text_def lookup_empty_dir split: option.splits)
  from Cons.IH [OF this] obtain c' where "makedirs ss ?child = Inr c'" by blast
  then show ?case by (simp add: d)
qed

lemma read_text_file_text:
  "read_text d p =
     (case file_text d (parts p) of None \<Rightarrow> Inl OSError | Some c \<Rightarrow> Inr (universal_newlines c))"
  by (simp add: read_text_def file_text_def split: option.splits node.splits)

lemma path_exists_iff:
  "path_exists d p \<longleftrightarrow> file_text d (parts p) \<noteq> None \<or> is_dir d (parts p)"
  by (simp add: path_exists_def file_text_def is_dir_def split: option.splits node.splits)

text \<open>Creating the directories and then the file, where nothing stands yet.\<close>

lemma create_file:
  assumes mk: "makedirs (butlast p) d = Inr d1" and absent: "lookup p d = None"
  shows "\<exists>d2. write_text p c d1 = Inr d2"
proof -
  from absent have ne: "p \<noteq> []" by auto
  have "is_dir d1 (butlast p)" using makedirs_is_dir [OF mk] by simp
  moreover have "\<not> prefix p (butlast p)"
    using ne by (metis prefix_length_le length_butlast diff_less length_greater_0_conv
        less_one not_le)
  then have "\<not> is_dir d1 p" using makedirs_is_dir [OF mk, of p] absent
    by (simp add: is_dir_def)
  ultimately show ?thesis using write_text_succeeds [OF ne] by blast
qed

lemma redirect_removed_file_exists:
  assumes gen: "generate_canonical_url base_docs_path previous_docs_file
                  (joinpath base_docs_path (pure_path previous_dirname)) current_dirname
                = Inr (redirect_file, url)"
    and ex: "path_exists (disk w) redirect_file"
  shows "redirect_removed_file bs base_docs_path previous_docs_file current_dirname
           previous_dirname current_version use_abs_path product_name w = Inr w"
proof -
  obtain u where "absolute_url base_docs_path previous_docs_file = Inr u"
    using absolute_url_Inr [OF gen] by blast
  with gen ex show ?thesis
    by (simp add: redirect_removed_file_def and_then_def)
qed

text \<open>What a run that writes does, step by step.\<close>

lemma redirect_removed_file_absent:
  assumes gen: "generate_canonical_url base_docs_path previous_docs_file
                  (joinpath base_docs_path (pure_path previous_dirname)) current_dirname
                = Inr (redirect_file, url)"
    and absent: "\<not> path_exists (disk w) redirect_file"
    and run: "redirect_removed_file bs base_docs_path previous_docs_file current_dirname
           previous_dirname current_version use_abs_path product_name w = Inr w'"
  shows "\<exists>prev_text url0 url1 d1 d2.
           (if use_abs_path then absolute_url base_docs_path previous_docs_file else Inr url) = Inr url0 \<and>
           read_text (disk w) previous_docs_file = Inr prev_text \<and>
           static_redirect_url bs prev_text url0 = Inr url1 \<and>
           makedirs (parts (parent redirect_file)) (disk w) = Inr d1 \<and>
           write_text (parts redirect_file)
             (redirect_file_contents url1 product_name current_version) d1 = Inr d2 \<and>
           w' = w\<lparr>disk := d2\<rparr>"
  using run gen absent
  by (auto simp: redirect_removed_file_def and_then_def split: sum.splits if_splits)

text \<open>
  A run that raises has written nothing: it raises while it reads the previous page, while
  it looks for a static redirect in it, or in \<open>makedirs\<close>, which creates nothing when it
  fails. Once the directories are there the write cannot fail.
\<close>

lemma redirect_removed_file_raises:
  assumes gen: "generate_canonical_url base_docs_path previous_docs_file
                  (joinpath base_docs_path (pure_path previous_dirname)) current_dirname
                = Inr (redirect_file, url)"
    and run: "redirect_removed_file bs base_docs_path previous_docs_file current_dirname
           previous_dirname current_version use_abs_path product_name w = Inl e"
  shows "\<not> path_exists (disk w) redirect_file \<and>
         (makedirs (parts (parent redirect_file)) (disk w) = Inl e \<or>
          read_text (disk w) previous_docs_file = Inl e \<or>
          (\<exists>prev_text u. read_text (disk w) previous_docs_file = Inr prev_text \<and>
             static_redirect_url bs prev_text u = Inl e))"
proof -
  obtain u where u: "absolute_url base_docs_path previous_docs_file = Inr u"
    using absolute_url_Inr [OF gen] by blast
  have absent: "\<not> path_exists (disk w) redirect_file"
    using run redirect_removed_file_exists [OF gen] by (cases "path_exists (disk w) redirect_file") auto
  then have none: "lookup (parts redirect_file) (disk w) = None"
    by (simp add: path_exists_def)
  have "write_text (parts redirect_file) c d1 \<noteq> Inl e'"
    if "makedirs (parts (parent redirect_file)) (disk w) = Inr d1" for c d1 e'
    using create_file [of "parts redirect_file" "disk w" d1 c] that none
    by (auto simp: parent_def)
  with run gen u absent show ?thesis
    by (auto simp: redirect_removed_file_def and_then_def split: sum.splits if_splits)
qed

section \<open>The redirect synthesizer\<close>

lemma redirect_file_contents_refresh:
  \<open>sublist (''<meta http-equiv="refresh" content="3; url='' @ url @ ''">'')
     (redirect_file_contents url product_name current_version)\<close>
proof -
  let ?pre = \<open>''<!DOCTYPE html>\<newline><html lang="en">\<newline>  <head>\<newline>    <meta charset="UTF-8">\<newline>    ''\<close>
  have \<open>\<exists>post. redirect_file_contents url product_name current_version =
      ?pre @ (''<meta http-equiv="refresh" content="3; url='' @ url @ ''">'') @ post\<close>
    by (simp add: redirect_file_contents_def REMOVED_REDIRECT_TEMPLATE_def)
  then show ?thesis by (metis sublist_appendI)
qed

text \<open>
  C3. Where something stands already at the path computed for the redirect,
  \<^verbatim>\<open>redirect_removed_file\<close> returns with the file system and the output as they were, and
  raises nothing. And after a run that has returned, a further run for the same page
  changes nothing, whatever the current version, the product name, the addressing mode
  and the parser's findings are by then: a redirect once written is never overwritten.
\<close>

theorem existing_redirect_is_kept:
  assumes gen: "generate_canonical_url base_docs_path previous_docs_file
                  (joinpath base_docs_path (pure_path previous_dirname)) current_dirname
                = Inr (redirect_file, url)"
  shows "(path_exists (disk w) redirect_file \<longrightarrow>
            redirect_removed_file bs base_docs_path previous_docs_file current_dirname
              previous_dirname current_version use_abs_path product_name w = Inr w)
       \<and> (redirect_removed_file bs base_docs_path previous_docs_file current_dirname
              previous_dirname current_version use_abs_path product_name w = Inr w1 \<longrightarrow>
            redirect_removed_file bs' base_docs_path previous_docs_file current_dirname
              previous_dirname later_version use_abs_path' product_name' w1 = Inr w1)"
proof (intro conjI impI)
  assume "path_exists (disk w) redirect_file"
  then show "redirect_removed_file bs base_docs_path previous_docs_file current_dirname
      previous_dirname current_version use_abs_path product_name w = Inr w"
    by (rule redirect_removed_file_exists [OF gen])
next
  assume run: "redirect_removed_file bs base_docs_path previous_docs_file current_dirname
      previous_dirname current_version use_abs_path product_name w = Inr w1"
  have "path_exists (disk w1) redirect_file"
  proof (cases "path_exists (disk w) redirect_file")
    case True
    with redirect_removed_file_exists [OF gen True] run show ?thesis by simp
  next
    case False
    from redirect_removed_file_absent [OF gen False run] obtain c d1 d2 where
      "write_text (parts redirect_file) c d1 = Inr d2" "w1 = w\<lparr>disk := d2\<rparr>"
      by blast
    then show ?thesis
      using write_text_file_text [of "parts redirect_file" c d1 d2 "parts redirect_file"]
      by (simp add: path_exists_iff)
  qed
  then show "redirect_removed_file bs' base_docs_path previous_docs_file current_dirname
      previous_dirname later_version use_abs_path' product_name' w1 = Inr w1"
    by (rule redirect_removed_file_exists [OF gen])
qed

theorem existing_redirect_is_kept_witness:
  "path_exists rename_disk (pure_path ''/docs/latest/index.html'')
   \<and> redirect_removed_file rename_parser docs (pure_path ''/docs/27/index.html'')
       ''latest'' ''27'' ''28'' True None \<lparr>disk = rename_disk, printed = []\<rparr>
     = Inr \<lparr>disk = rename_disk, printed = []\<rparr>
   \<and> redirect_removed_file rename_parser docs (pure_path ''/docs/27/page.html'')
       ''latest'' ''27'' ''28'' True None \<lparr>disk = rename_disk, printed = []\<rparr>
     = Inr \<lparr>disk = rename_disk_after, printed = []\<rparr>
   \<and> redirect_removed_file rename_parser docs (pure_path ''/docs/27/page.html'')
       ''latest'' ''27'' ''29'' False (Some ''WildFly'') \<lparr>disk = rename_disk_after, printed = []\<rparr>
     = Inr \<lparr>disk = rename_disk_after, printed = []\<rparr>"
proof -
  let ?w = "\<lparr>disk = rename_disk, printed = []\<rparr>"
  let ?w1 = "\<lparr>disk = rename_disk_after, printed = []\<rparr>"
  have gen: "generate_canonical_url docs (pure_path ''/docs/27/index.html'')
      (joinpath docs (pure_path ''27'')) ''latest''
      = Inr (pure_path ''/docs/latest/index.html'', ''../../27/index.html'')"
    by code_simp
  have ex: "path_exists (disk ?w) (pure_path ''/docs/latest/index.html'')"
    by code_simp
  have gen': "generate_canonical_url docs (pure_path ''/docs/27/page.html'')
      (joinpath docs (pure_path ''27'')) ''latest''
      = Inr (pure_path ''/docs/latest/page.html'', ''../../27/page.html'')"
    by code_simp
  have run: "redirect_removed_file rename_parser docs (pure_path ''/docs/27/page.html'')
      ''latest'' ''27'' ''28'' True None ?w = Inr ?w1"
    by code_simp
  from existing_redirect_is_kept [OF gen, of ?w rename_parser "''28''" True None] ex
  have "redirect_removed_file rename_parser docs (pure_path ''/docs/27/index.html'')
      ''latest'' ''27'' ''28'' True None ?w = Inr ?w"
    by blast
  moreover
  from existing_redirect_is_kept [OF gen', of ?w rename_parser "''28''" True None ?w1
      rename_parser "''29''" False "Some ''WildFly''"] run
  have "redirect_removed_file rename_parser docs (pure_path ''/docs/27/page.html'')
      ''latest'' ''27'' ''29'' False (Some ''WildFly'') ?w1 = Inr ?w1"
    by blast
  ultimately show ?thesis using ex run by simp
qed

text \<open>
  C4. The previous page holds a meta refresh tag and a canonical link, and the \<^verbatim>\<open>href\<close> of
  the link occurs in the \<^verbatim>\<open>content\<close> of the refresh tag. Then, where the redirect is
  written (nothing stands at its path yet, and no file stands where one of its directories
  has to be), the page written is the template filled with that \<^verbatim>\<open>href\<close>: its meta
  refresh goes to the \<^verbatim>\<open>href\<close>, in either addressing mode, not to the URL computed from the
  paths.
\<close>

theorem static_redirect_is_inherited:
  assumes gen: "generate_canonical_url base_docs_path previous_docs_file
                  (joinpath base_docs_path (pure_path previous_dirname)) current_dirname
                = Inr (redirect_file, url)"
    and absent: "\<not> path_exists (disk w) redirect_file"
    and free: "\<forall>q. prefix q (parts (parent redirect_file)) \<longrightarrow> file_text (disk w) q = None"
    and rd: "read_text (disk w) previous_docs_file = Inr prev_text"
    and meta: "find_meta_refresh bs prev_text = Some static_redirect"
    and content: "map_of static_redirect ''content'' = Some content"
    and link: "find_link_canonical bs prev_text = Some canon_link"
    and href: "map_of canon_link ''href'' = Some href"
    and ref: "sublist href content"
  shows \<open>\<exists>w'. redirect_removed_file bs base_docs_path previous_docs_file current_dirname
           previous_dirname current_version use_abs_path product_name w = Inr w' \<and>
         file_text (disk w') (parts redirect_file) =
           Some (redirect_file_contents href product_name current_version) \<and>
         sublist (''<meta http-equiv="refresh" content="3; url='' @ href @ ''">'')
           (redirect_file_contents href product_name current_version)\<close>
proof -
  let ?c = "redirect_file_contents href product_name current_version"
  obtain u where u: "absolute_url base_docs_path previous_docs_file = Inr u"
    using absolute_url_Inr [OF gen] by blast
  have static: "static_redirect_url bs prev_text v = Inr href" for v
    using meta content link href ref
    by (simp add: static_redirect_url_def tag_attr_def and_then_def py_in_def)
  from free obtain d1 where d1: "makedirs (parts (parent redirect_file)) (disk w) = Inr d1"
    using makedirs_succeeds [of "parts (parent redirect_file)" "disk w"] by blast
  then have d1': "makedirs (butlast (parts redirect_file)) (disk w) = Inr d1"
    by (simp add: parent_def)
  from absent have none: "lookup (parts redirect_file) (disk w) = None"
    by (simp add: path_exists_def)
  from create_file [OF d1' none] obtain d2 where
    d2: "write_text (parts redirect_file) ?c d1 = Inr d2" by blast
  have "redirect_removed_file bs base_docs_path previous_docs_file current_dirname
           previous_dirname current_version use_abs_path product_name w = Inr (w\<lparr>disk := d2\<rparr>)"
    using gen u absent rd static d1 d2
    by (simp add: redirect_removed_file_def and_then_def)
  moreover have "file_text d2 (parts redirect_file) = Some ?c"
    using write_text_file_text [OF d2] by simp
  ultimately show ?thesis
    using redirect_file_contents_refresh by simp
qed

theorem static_redirect_is_inherited_witness:
  \<open>\<exists>w'. redirect_removed_file rename_parser docs (pure_path ''/docs/27/old.html'')
           ''latest'' ''27'' ''28'' False None \<lparr>disk = rename_disk, printed = []\<rparr> = Inr w' \<and>
         file_text (disk w') [''docs'', ''latest'', ''old.html''] =
           Some (redirect_file_contents ''moved.html'' None ''28'') \<and>
         sublist ''<meta http-equiv="refresh" content="3; url=moved.html">''
           (redirect_file_contents ''moved.html'' None ''28'')\<close>
proof -
  let ?w = "\<lparr>disk = rename_disk, printed = []\<rparr>"
  let ?rf = "\<lparr>root = ''/'', parts = [''docs'', ''latest'', ''old.html'']\<rparr>"
  have gen: "generate_canonical_url docs (pure_path ''/docs/27/old.html'')
      (joinpath docs (pure_path ''27'')) ''latest''
      = Inr (?rf, ''../../27/old.html'')"
    by code_simp
  have absent: "\<not> path_exists (disk ?w) ?rf"
    by code_simp
  have "\<forall>q \<in> set (prefixes [''docs'', ''latest'']). file_text rename_disk q = None"
    by code_simp
  then have "\<forall>q. prefix q [''docs'', ''latest''] \<longrightarrow> file_text rename_disk q = None"
    unfolding Ball_def in_set_prefixes .
  moreover have "parts (parent ?rf) = [''docs'', ''latest'']"
    by (simp add: parent_def)
  ultimately have free:
    "\<forall>q. prefix q (parts (parent ?rf)) \<longrightarrow> file_text (disk ?w) q = None"
    by (simp del: prefixes.simps)
  have rd: "read_text (disk ?w) (pure_path ''/docs/27/old.html'') = Inr old_page"
    by code_simp
  have meta: "find_meta_refresh rename_parser old_page =
      Some [(''http-equiv'', ''refresh''), (''content'', ''0; url=moved.html'')]"
    by (simp add: rename_parser_def)
  have content: "map_of [(''http-equiv'', ''refresh''), (''content'', ''0; url=moved.html'')]
      ''content'' = Some ''0; url=moved.html''"
    by simp
  have link: "find_link_canonical rename_parser old_page =
      Some [(''rel'', ''canonical''), (''href'', ''moved.html'')]"
    by (simp add: rename_parser_def)
  have href: "map_of [(''rel'', ''canonical''), (''href'', ''moved.html'')] ''href''
      = Some ''moved.html''"
    by simp
  have ref: "sublist ''moved.html'' ''0; url=moved.html''"
    by code_simp
  from static_redirect_is_inherited [OF gen absent free rd meta content link href ref,
      of "''28''" False None]
  show ?thesis by simp
qed

text \<open>
  C10. A run of \<^verbatim>\<open>redirect_removed_file\<close> that returns prints nothing and leaves the page
  it reads as it was. No file other than the redirect changes, appears or disappears; no
  directory disappears, and the new directories are those on the way to the redirect,
  made only when the redirect is written. Where something stood at the path of the
  redirect nothing changes at all; where nothing stood, the redirect page stands there
  afterwards. (A run that raises has written nothing, by \<open>redirect_removed_file_raises\<close>.)
\<close>

theorem redirect_synthesis_frame:
  assumes run: "redirect_removed_file bs base_docs_path previous_docs_file current_dirname
           previous_dirname current_version use_abs_path product_name w = Inr w'"
    and gen: "generate_canonical_url base_docs_path previous_docs_file
                  (joinpath base_docs_path (pure_path previous_dirname)) current_dirname
                = Inr (redirect_file, url)"
  shows "printed w' = printed w
       \<and> read_text (disk w') previous_docs_file = read_text (disk w) previous_docs_file
       \<and> (\<forall>p. p \<noteq> parts redirect_file \<longrightarrow> file_text (disk w') p = file_text (disk w) p)
       \<and> (\<forall>p. is_dir (disk w') p \<longleftrightarrow>
                is_dir (disk w) p \<or>
                \<not> path_exists (disk w) redirect_file \<and> prefix p (parts (parent redirect_file)))
       \<and> (path_exists (disk w) redirect_file \<longrightarrow> w' = w)
       \<and> (\<not> path_exists (disk w) redirect_file \<longrightarrow>
            (\<exists>redirect_url. file_text (disk w') (parts redirect_file) =
               Some (redirect_file_contents redirect_url product_name current_version)))"
proof (cases "path_exists (disk w) redirect_file")
  case True
  from redirect_removed_file_exists [OF gen True] run have "w' = w" by simp
  with True show ?thesis by simp
next
  case False
  from redirect_removed_file_absent [OF gen False run] obtain prev_text url1 d1 d2 where
    rd: "read_text (disk w) previous_docs_file = Inr prev_text"
    and d1: "makedirs (parts (parent redirect_file)) (disk w) = Inr d1"
    and d2: "write_text (parts redirect_file)
               (redirect_file_contents url1 product_name current_version) d1 = Inr d2"
    and w': "w' = w\<lparr>disk := d2\<rparr>"
    by blast
  have files: "file_text d2 p =
      (if p = parts redirect_file
       then Some (redirect_file_contents url1 product_name current_version)
       else file_text (disk w) p)" for p
    using write_text_file_text [OF d2] makedirs_file_text [OF d1] by simp
  have dirs: "is_dir d2 p \<longleftrightarrow> is_dir (disk w) p \<or> prefix p (parts (parent redirect_file))" for p
    using write_text_is_dir [OF d2] makedirs_is_dir [OF d1] by simp
  from False have "file_text (disk w) (parts redirect_file) = None"
    by (simp add: path_exists_iff)
  moreover from rd have "file_text (disk w) (parts previous_docs_file) \<noteq> None"
    by (auto simp: read_text_file_text split: option.splits)
  ultimately have "parts previous_docs_file \<noteq> parts redirect_file" by auto
  then have "read_text d2 previous_docs_file = read_text (disk w) previous_docs_file"
    by (simp add: read_text_file_text files)
  with False files dirs show ?thesis by (auto simp: w')
qed

theorem redirect_synthesis_frame_witness:
  "redirect_removed_file rename_parser docs (pure_path ''/docs/27/page.html'')
     ''latest'' ''27'' ''28'' True None \<lparr>disk = rename_disk, printed = []\<rparr>
   = Inr \<lparr>disk = rename_disk_after, printed = []\<rparr>
   \<and> read_text rename_disk_after (pure_path ''/docs/27/page.html'')
       = read_text rename_disk (pure_path ''/docs/27/page.html'')
   \<and> file_text rename_disk_after [''docs'', ''27'', ''old.html'']
       = file_text rename_disk [''docs'', ''27'', ''old.html'']
   \<and> file_text rename_disk_after [''docs'', ''latest'', ''index.html'']
       = file_text rename_disk [''docs'', ''latest'', ''index.html'']
   \<and> is_dir rename_disk_after [''docs'', ''latest'']
   \<and> file_text rename_disk [''docs'', ''latest'', ''page.html''] = None
   \<and> file_text rename_disk_after [''docs'', ''latest'', ''page.html''] = Some redirect_page_27_28"
proof -
  let ?w = "\<lparr>disk = rename_disk, printed = []\<rparr>"
  let ?w' = "\<lparr>disk = rename_disk_after, printed = []\<rparr>"
  let ?rf = "\<lparr>root = ''/'', parts = [''docs'', ''latest'', ''page.html'']\<rparr>"
  have run: "redirect_removed_file rename_parser docs (pure_path ''/docs/27/page.html'')
     ''latest'' ''27'' ''28'' True None ?w = Inr ?w'"
    by code_simp
  have gen: "generate_canonical_url docs (pure_path ''/docs/27/page.html'')
      (joinpath docs (pure_path ''27'')) ''latest''
      = Inr (?rf, ''../../27/page.html'')"
    by code_simp
  have before: "file_text rename_disk [''docs'', ''latest'', ''page.html''] = None"
    by code_simp
  have after: "file_text rename_disk_after [''docs'', ''latest'', ''page.html'']
      = Some redirect_page_27_28"
    by code_simp
  have dir: "is_dir rename_disk [''docs'', ''latest'']"
    by code_simp
  note frame = redirect_synthesis_frame [OF run gen]
  from frame have "read_text rename_disk_after (pure_path ''/docs/27/page.html'')
       = read_text rename_disk (pure_path ''/docs/27/page.html'')"
    by simp
  moreover from frame have "file_text rename_disk_after [''docs'', ''27'', ''old.html'']
       = file_text rename_disk [''docs'', ''27'', ''old.html'']"
    by simp
  moreover from frame have "file_text rename_disk_after [''docs'', ''latest'', ''index.html'']
       = file_text rename_disk [''docs'', ''latest'', ''index.html'']"
    by simp
  moreover from frame dir have "is_dir rename_disk_after [''docs'', ''latest'']"
    by simp
  ultimately show ?thesis using run before after by simp
qed

text \<open>
  C5. The scenario: base directory \<^verbatim>\<open>/docs\<close>, the page \<^verbatim>\<open>/docs/27/page.html\<close> (an ordinary
  page: the parser finds no meta refresh in it), a directory \<^verbatim>\<open>/docs/latest\<close> without
  \<^verbatim>\<open>page.html\<close>, current version \<^verbatim>\<open>28\<close>, absolute mode, no product name. The run
  creates \<^verbatim>\<open>/docs/latest/page.html\<close> with the text \<open>redirect_page_27_28\<close>, which holds a
  meta refresh to \<^verbatim>\<open>/27/page.html\<close> and names the version 28 in its body.
\<close>

theorem two_segment_rename:
  assumes page: "file_text d [''docs'', ''27'', ''page.html''] = Some page"
    and latest: "is_dir d [''docs'', ''latest'']"
    and absent: "lookup [''docs'', ''latest'', ''page.html''] d = None"
    and plain: "find_meta_refresh bs (universal_newlines page) = None"
  shows \<open>\<exists>d'. redirect_removed_file bs (pure_path ''/docs'') (pure_path ''/docs/27/page.html'')
                 ''latest'' ''27'' ''28'' True None \<lparr>disk = d, printed = out\<rparr>
               = Inr \<lparr>disk = d', printed = out\<rparr>
             \<and> file_text d' [''docs'', ''latest'', ''page.html''] = Some redirect_page_27_28
             \<and> sublist ''<meta http-equiv="refresh" content="3; url=/27/page.html">''
                  redirect_page_27_28
             \<and> sublist ''(28)'' redirect_page_27_28\<close>
proof -
  let ?rf = "[''docs'', ''latest'', ''page.html'']"
  have gen: "generate_canonical_url (pure_path ''/docs'') (pure_path ''/docs/27/page.html'')
      (joinpath (pure_path ''/docs'') (pure_path ''27'')) ''latest''
      = Inr (\<lparr>root = ''/'', parts = ?rf\<rparr>, ''../../27/page.html'')"
    by code_simp
  have url: "absolute_url (pure_path ''/docs'') (pure_path ''/docs/27/page.html'')
      = Inr ''/27/page.html''"
    by code_simp
  have prev: "parts (pure_path ''/docs/27/page.html'') = [''docs'', ''27'', ''page.html'']"
    by code_simp
  have contents: "redirect_file_contents ''/27/page.html'' None ''28'' = redirect_page_27_28"
    by code_simp
  have rd: "read_text d (pure_path ''/docs/27/page.html'') = Inr (universal_newlines page)"
    using page by (simp add: read_text_file_text prev)
  have static: "static_redirect_url bs (universal_newlines page) ''/27/page.html''
      = Inr ''/27/page.html''"
    using plain by (simp add: static_redirect_url_def)
  have mk: "makedirs (parts (parent \<lparr>root = ''/'', parts = ?rf\<rparr>)) d
      = Inr d"
    using makedirs_existing [OF latest] by (simp add: parent_def del: makedirs.simps)
  have np: "\<not> path_exists d \<lparr>root = ''/'', parts = ?rf\<rparr>"
    using absent by (simp add: path_exists_def del: lookup.simps)
  from absent have "\<not> is_dir d ?rf" by (simp add: is_dir_def del: lookup.simps)
  moreover from latest have "is_dir d (butlast ?rf)" by simp
  ultimately obtain d' where wr: "write_text ?rf redirect_page_27_28 d = Inr d'"
    using write_text_succeeds [of ?rf d redirect_page_27_28] by blast
  have wr': "write_text (parts \<lparr>root = ''/'', parts = ?rf\<rparr>) redirect_page_27_28 d = Inr d'"
    using wr by (simp del: write_text.simps)
  have "redirect_removed_file bs (pure_path ''/docs'') (pure_path ''/docs/27/page.html'')
      ''latest'' ''27'' ''28'' True None \<lparr>disk = d, printed = out\<rparr>
      = Inr \<lparr>disk = d', printed = out\<rparr>"
    unfolding redirect_removed_file_def and_then_def gen url
    by (simp only: np rd static contents mk wr' sum.case prod.case if_True if_False not_False_eq_True
        world.simps world.update_convs)
  moreover have "file_text d' ?rf = Some redirect_page_27_28"
    using write_text_file_text [OF wr] by simp
  moreover have \<open>sublist ''<meta http-equiv="refresh" content="3; url=/27/page.html">''
      redirect_page_27_28\<close>
    by code_simp
  moreover have "sublist ''(28)'' redirect_page_27_28"
    by code_simp
  ultimately show ?thesis by blast
qed

theorem two_segment_rename_witness:
  \<open>\<exists>d'. redirect_removed_file rename_parser (pure_path ''/docs'')
                 (pure_path ''/docs/27/page.html'') ''latest'' ''27'' ''28'' True None
                 \<lparr>disk = rename_disk, printed = []\<rparr>
               = Inr \<lparr>disk = d', printed = []\<rparr>
             \<and> file_text d' [''docs'', ''latest'', ''page.html''] = Some redirect_page_27_28
             \<and> sublist ''<meta http-equiv="refresh" content="3; url=/27/page.html">''
                  redirect_page_27_28
             \<and> sublist ''(28)'' redirect_page_27_28\<close>
proof -
  have page: \<open>file_text rename_disk [''docs'', ''27'', ''page.html''] =
      Some ''<html><head>\<newline></head><body>27</body></html>\<newline>''\<close>
    by code_simp
  have latest: "is_dir rename_disk [''docs'', ''latest'']"
    by code_simp
  have absent: "lookup [''docs'', ''latest'', ''page.html''] rename_disk = None"
    by code_simp
  have plain: \<open>find_meta_refresh rename_parser
      (universal_newlines ''<html><head>\<newline></head><body>27</body></html>\<newline>'') = None\<close>
    by code_simp
  from two_segment_rename [OF page latest absent plain, of "[]"]
  show ?thesis .
qed

section \<open>A page with a head line of its own\<close>

lemma scan_lines_append:
  "scan_lines (xs @ ys) st =
     (case scan_lines xs st of None \<Rightarrow> None | Some st' \<Rightarrow> scan_lines ys st')"
  by (induction xs arbitrary: st) (auto split: option.splits)

lemma scan_line_plain:
  assumes "\<not> sublist ''<link rel='' ln" "\<not> sublist ''http-equiv='' ln"
  shows "scan_line idx ln st =
     Some (st\<lparr>head_closing_tag :=
       (if re_match head_line_pattern ln \<noteq> None \<and> line (head_closing_tag st) = None
        then (head_closing_tag st)\<lparr>line := Some idx\<rparr>
        else (case re_search head_pattern ln of
                Some head_close_match \<Rightarrow>
                  set_match (head_closing_tag st) idx (int (m_start head_close_match) - int 0)
              | None \<Rightarrow> head_closing_tag st))\<rparr>)"
  by (simp add: scan_line_def Let_def no_link_findall [OF assms(1)] no_link_match [OF assms(1)]
      no_http_equiv_search [OF assms(2)])

lemma scan_line_plain_no_head:
  assumes "\<not> sublist ''<link rel='' ln" "\<not> sublist ''http-equiv='' ln"
    and "\<not> sublist ''</head>'' ln"
  shows "scan_line idx ln st = Some st"
  by (simp add: scan_line_plain [OF assms(1,2)] no_head_match [OF assms(3)]
      no_head_search [OF assms(3)])

lemma scan_lines_plain_no_head:
  assumes "\<forall>p \<in> set xs. \<not> sublist ''<link rel='' (snd p) \<and> \<not> sublist ''http-equiv='' (snd p) \<and>
             \<not> sublist ''</head>'' (snd p)"
  shows "scan_lines xs st = Some st"
  using assms
proof (induction xs)
  case Nil
  show ?case by simp
next
  case (Cons p xs)
  obtain i l where p: "p = (i, l)" by (cases p)
  with Cons show ?case by (simp add: scan_line_plain_no_head)
qed

lemma stamp_plain_lines:
  assumes k: "k < length ls"
    and head: "ls ! k = ws @ ''</head>'' @ [newline]" "set ws \<subseteq> set whitespace"
    and others: "\<forall>i < length ls. i \<noteq> k \<longrightarrow> \<not> sublist ''</head>'' (ls ! i)"
    and nolink: "\<forall>ln \<in> set ls. \<not> sublist ''<link rel='' ln"
    and nored: "\<forall>ln \<in> set ls. \<not> sublist ''http-equiv='' ln"
  shows "stamp_lines canonical_tag ls =
           Stamped (take k ls @ [canonical_tag @ [newline]] @ drop k ls)"
proof -
  let ?pre = "take k ls" and ?post = "drop (Suc k) ls"
  let ?st = "\<lparr>c_file = ls, existing_canon_tags = [], head_closing_tag = HTMLTagMatch_init\<rparr>"
  let ?st' = "?st\<lparr>head_closing_tag := \<lparr>line = Some k, col = None\<rparr>\<rparr>"
  have ls: "ls = ?pre @ ls ! k # ?post" using k by (rule id_take_nth_drop)
  have len: "length ?pre = k" using k by simp
  have enum: "enumerate 0 ls =
      enumerate 0 ?pre @ (k, ls ! k) # enumerate (Suc k) ?post"
    using arg_cong [OF ls, of "enumerate 0"] len by (simp add: enumerate_append_eq)
  have quiet: "\<not> sublist ''<link rel='' ln \<and> \<not> sublist ''http-equiv='' ln" if "ln \<in> set ls" for ln
    using nolink nored that by blast
  have pre: "\<forall>p \<in> set (enumerate 0 ?pre). \<not> sublist ''<link rel='' (snd p) \<and>
      \<not> sublist ''http-equiv='' (snd p) \<and> \<not> sublist ''</head>'' (snd p)"
  proof
    fix p assume "p \<in> set (enumerate 0 ?pre)"
    then have "fst p < k" "snd p = ls ! fst p"
      using k by (auto simp: in_set_enumerate_eq)
    with k others quiet [of "snd p"] show "\<not> sublist ''<link rel='' (snd p) \<and>
      \<not> sublist ''http-equiv='' (snd p) \<and> \<not> sublist ''</head>'' (snd p)"
      by auto
  qed
  have post: "\<forall>p \<in> set (enumerate (Suc k) ?post). \<not> sublist ''<link rel='' (snd p) \<and>
      \<not> sublist ''http-equiv='' (snd p) \<and> \<not> sublist ''</head>'' (snd p)"
  proof
    fix p assume "p \<in> set (enumerate (Suc k) ?post)"
    then have "Suc k \<le> fst p" "fst p < length ls" "snd p = ls ! fst p"
      using k by (auto simp: in_set_enumerate_eq)
    with others quiet [of "snd p"] show "\<not> sublist ''<link rel='' (snd p) \<and>
      \<not> sublist ''http-equiv='' (snd p) \<and> \<not> sublist ''</head>'' (snd p)"
      by auto
  qed
  have "ls ! k \<in> set ls" using k by simp
  from quiet [OF this] have "scan_line k (ls ! k) ?st = Some ?st'"
    using head_line_recognised [OF head(2)]
    by (simp add: scan_line_plain head(1) HTMLTagMatch_init_def)
  then have "scan_lines (enumerate 0 ls) ?st = Some ?st'"
    unfolding enum scan_lines_append
    by (simp add: scan_lines_plain_no_head [OF pre] scan_lines_plain_no_head [OF post])
  then show ?thesis
    by (simp add: stamp_lines_def insert_tag_def)
qed

lemma write_text_existing:
  "file_text d p = Some c \<Longrightarrow> p \<noteq> [] \<Longrightarrow> \<exists>d'. write_text p c' d = Inr d'"
proof (induction p arbitrary: d)
  case Nil
  then show ?case by simp
next
  case (Cons s ss)
  from Cons.prems(1) obtain es where d: "d = Dir es"
    by (cases d) (simp_all add: file_text_def)
  show ?case
  proof (cases "ss = []")
    case True
    with Cons.prems(1) d show ?thesis
      by (auto simp: file_text_def split: option.splits node.splits)
  next
    case False
    from Cons.prems(1) d obtain ch where ch: "map_of es s = Some ch" "file_text ch ss = Some c"
      by (auto simp: file_text_def split: option.splits)
    from Cons.IH [OF ch(2) False] obtain c'' where "write_text ss c' ch = Inr c''" by blast
    with ch(1) False show ?thesis by (simp add: d)
  qed
qed


text \<open>
  The second property of the specification's list of testable properties. In a page that
  has \<^verbatim>\<open></head>\<close> on one line only, as that line's whole content but for leading
  whitespace, and has no \<^verbatim>\<open><link rel=\<close> and no \<^verbatim>\<open>http-equiv=\<close> anywhere,
  \<^verbatim>\<open>create_canonical_tag\<close> puts one new line, the canonical link, right before the line of
  \<^verbatim>\<open></head>\<close>. Every other line of the file and every other file stay as they were.
\<close>

theorem plain_page_gets_one_line:
  assumes gen: "generate_canonical_url base_docs_path current_file current_docs_path version
                = Inr (versioned_file, relative_url)"
    and url: "(if use_abs_path then absolute_url base_docs_path current_file
               else Inr relative_url) = Inr canonical_url"
    and name: "parts current_file \<noteq> []"
    and rd: "read_text (disk w) current_file = Inr text"
    and k: "k < length (readlines text)"
    and head: "readlines text ! k = ws @ ''</head>'' @ [newline]" "set ws \<subseteq> set whitespace"
    and others: "\<forall>i < length (readlines text). i \<noteq> k \<longrightarrow> \<not> sublist ''</head>'' (readlines text ! i)"
    and nolink: "\<forall>ln \<in> set (readlines text). \<not> sublist ''<link rel='' ln"
    and nored: "\<forall>ln \<in> set (readlines text). \<not> sublist ''http-equiv='' ln"
  shows \<open>\<exists>d'. create_canonical_tag base_docs_path current_docs_path current_file version
                use_abs_path w = Inr (w\<lparr>disk := d'\<rparr>)
            \<and> file_text d' (parts current_file) =
                Some (concat (take k (readlines text) @
                        [''<link rel="canonical" href="'' @ canonical_url @ ''">'' @ [newline]] @
                        drop k (readlines text)))
            \<and> (\<forall>p. p \<noteq> parts current_file \<longrightarrow> file_text d' p = file_text (disk w) p)\<close>
proof -
  let ?tag = \<open>''<link rel="canonical" href="'' @ canonical_url @ ''">''\<close>
  let ?new = "take k (readlines text) @ [?tag @ [newline]] @ drop k (readlines text)"
  have stamped: "stamp_lines ?tag (readlines text) = Stamped ?new"
    using stamp_plain_lines [OF k head others nolink nored] .
  from rd obtain c where c: "file_text (disk w) (parts current_file) = Some c"
    by (auto simp: read_text_file_text split: option.splits)
  from write_text_existing [OF c name] obtain d' where
    d': "write_text (parts current_file) (writelines ?new) (disk w) = Inr d'" by blast
  have "create_canonical_tag base_docs_path current_docs_path current_file version
      use_abs_path w = Inr (w\<lparr>disk := d'\<rparr>)"
    unfolding create_canonical_tag_def and_then_def Let_def
    by (simp only: gen url rd stamped d' sum.case prod.case stamp_result.case)
  moreover have "file_text d' p =
      (if p = parts current_file then Some (writelines ?new) else file_text (disk w) p)" for p
    using write_text_file_text [OF d'] .
  ultimately show ?thesis by (auto simp: writelines_def)
qed


theorem plain_page_gets_one_line_witness:
  "\<exists>d'. create_canonical_tag docs docs_latest (pure_path ''/docs/latest/index.html'')
           ''latest'' True \<lparr>disk = page_disk plain_page, printed = []\<rparr>
         = Inr \<lparr>disk = d', printed = []\<rparr>
       \<and> file_text d' [''docs'', ''latest'', ''index.html''] = Some plain_page_stamped"
proof -
  let ?f = "pure_path ''/docs/latest/index.html''"
  let ?w = "\<lparr>disk = page_disk plain_page, printed = []\<rparr>"
  have gen: "generate_canonical_url docs ?f docs_latest ''latest''
      = Inr (pure_path ''/docs/latest/index.html'', ''../../latest/index.html'')"
    by code_simp
  have url: "(if True then absolute_url docs ?f else Inr ''../../latest/index.html'')
      = Inr ''/latest/index.html''"
    by code_simp
  have name: "parts ?f \<noteq> []" by code_simp
  have rd: "read_text (disk ?w) ?f = Inr plain_page" by code_simp
  have k: "3 < length (readlines plain_page)" by code_simp
  have head: "readlines plain_page ! 3 = ''  '' @ ''</head>'' @ [newline]" by code_simp
  have ws: "set ''  '' \<subseteq> set whitespace" by code_simp
  have others: "\<forall>i < length (readlines plain_page). i \<noteq> 3 \<longrightarrow>
      \<not> sublist ''</head>'' (readlines plain_page ! i)"
  proof -
    have "\<forall>i \<in> set [0..<length (readlines plain_page)]. i \<noteq> 3 \<longrightarrow>
      \<not> sublist ''</head>'' (readlines plain_page ! i)"
      by code_simp
    then show ?thesis by simp
  qed
  have nolink: "\<forall>ln \<in> set (readlines plain_page). \<not> sublist ''<link rel='' ln" by code_simp
  have nored: "\<forall>ln \<in> set (readlines plain_page). \<not> sublist ''http-equiv='' ln" by code_simp
  have parts: "parts ?f = [''docs'', ''latest'', ''index.html'']" by code_simp
  have new: \<open>concat (take 3 (readlines plain_page) @
      [''<link rel="canonical" href="'' @ ''/latest/index.html'' @ ''">'' @ [newline]] @
      drop 3 (readlines plain_page)) = plain_page_stamped\<close>
    by code_simp
  from plain_page_gets_one_line [OF gen url name rd k head ws others nolink nored]
  show ?thesis unfolding parts new by auto
qed

section \<open>Where the code departs from the claims\<close>

text \<open>
  C1 fails on the code. When the line of \<^verbatim>\<open></head>\<close> starts with \<^verbatim>\<open></head>\<close> and goes on with
  other tags, the first pass puts the canonical link at the start of that line. On the
  second pass the pattern for a line that is nothing but a canonical link,
  \<^verbatim>\<open>^\s*<link rel=["']canonical["'].*?>\n$\<close>, matches the whole line, since \<^verbatim>\<open>.*?\<close> may run
  over further tags up to the last \<^verbatim>\<open>>\<close>. The line is deleted, \<^verbatim>\<open></head><body>\<close> with it, and
  the new link is spliced into the line that follows, at the column recorded for the
  deleted one. Two passes over the walker's tree do not give what one pass gives.
\<close>

theorem stamping_twice_differs:
  "canonical_tag_walker docs docs_latest ''latest'' True
     \<lparr>disk = page_disk split_head_page, printed = []\<rparr>
   = Inr \<lparr>disk = page_disk split_head_page_once, printed = []\<rparr>
   \<and> canonical_tag_walker docs docs_latest ''latest'' True
       \<lparr>disk = page_disk split_head_page_once, printed = []\<rparr>
     = Inr \<lparr>disk = page_disk split_head_page_twice, printed = []\<rparr>
   \<and> split_head_page_twice \<noteq> split_head_page_once"
  by code_simp

text \<open>
  C2 fails on the code, by the same pattern: a line that starts with a canonical link and
  goes on with another tag is taken for a line that is nothing but a canonical link, and
  is deleted whole. The other tag of the line, here \<^verbatim>\<open><meta charset="utf-8">\<close>, is lost.
\<close>

theorem shared_line_content_is_lost:
  \<open>canonical_tag_walker docs docs_latest ''latest'' True
     \<lparr>disk = page_disk shared_line_page, printed = []\<rparr>
   = Inr \<lparr>disk = page_disk shared_line_page_stamped, printed = []\<rparr>
   \<and> sublist ''<meta charset="utf-8">'' shared_line_page
   \<and> \<not> sublist ''<meta charset="utf-8">'' shared_line_page_stamped\<close>
  by code_simp

text \<open>
  C6 fails on the code. \<^verbatim>\<open>generate_canonical_url\<close> writes one \<^verbatim>\<open>..\<close> for every part of the
  path of the sibling file below the base directory, the name of the file among them: one
  more than its directory lies below the base. Resolved from the directory of the sibling
  \<^verbatim>\<open>/srv/docs/latest/page.html\<close>, the URL \<^verbatim>\<open>../../27/page.html\<close> leads to
  \<^verbatim>\<open>/srv/27/page.html\<close>, not to the canonical file \<^verbatim>\<open>/srv/docs/27/page.html\<close>.
\<close>

theorem relative_url_overshoots:
  "generate_canonical_url (pure_path ''/srv/docs'') (pure_path ''/srv/docs/27/page.html'')
     (pure_path ''/srv/docs/27'') ''latest''
   = Inr (pure_path ''/srv/docs/latest/page.html'', ''../../27/page.html'')
   \<and> resolve_from (parent (pure_path ''/srv/docs/latest/page.html'')) ''../../27/page.html''
     = pure_path ''/srv/27/page.html''
   \<and> pure_path ''/srv/27/page.html'' \<noteq> pure_path ''/srv/docs/27/page.html''"
  by code_simp

text \<open>
  C9 fails on the code. \<^verbatim>\<open>canonical_tag_walker\<close> takes the files whose names end in
  \<^verbatim>\<open>.html\<close>; \<^verbatim>\<open>redirect_removed_walker\<close> tests \<^verbatim>\<open>f.endswith("html")\<close>, without the dot,
  and so also takes \<^verbatim>\<open>notes.xhtml\<close> and writes a redirect page for it.
\<close>

theorem redirect_walker_visits_xhtml:
  "redirect_removed_walker_files xhtml_disk docs ''27''
   = [pure_path ''/docs/27/page.html'', pure_path ''/docs/27/notes.xhtml'']
   \<and> canonical_tag_walker_files xhtml_disk (pure_path ''/docs/27'')
     = [pure_path ''/docs/27/page.html'']
   \<and> (case redirect_removed_walker rename_parser docs ''latest'' ''27'' ''28'' True None
             \<lparr>disk = xhtml_disk, printed = []\<rparr> of
         Inl e \<Rightarrow> None
       | Inr w' \<Rightarrow> file_text (disk w') [''docs'', ''latest'', ''notes.xhtml''])
     = Some (redirect_file_contents ''/27/notes.xhtml'' None ''28'')"
  by code_simp

end
